theory Spec2Isabelle
  imports Main
begin

section \<open>Data model (src/lib/api.ts)\<close>

text \<open>
  The interfaces \<^verbatim>\<open>Role\<close>, \<^verbatim>\<open>Permission\<close>, \<^verbatim>\<open>User\<close> and \<^verbatim>\<open>RolePermission\<close> of
  \<^verbatim>\<open>src/lib/api.ts\<close>. Field names carry a prefix because record fields are global
  constants; numbers that are ids are \<open>int\<close>, timestamps are the strings the API sends.
\<close>

record Role =
  r_id :: int
  r_name :: string
  r_description :: string
  r_active :: bool
  r_created_at :: string
  r_updated_at :: string

record Permission =
  p_id :: int
  p_name :: string
  p_description :: string
  p_created_at :: string
  p_updated_at :: string

record User =
  u_id :: int
  u_name :: string
  u_email :: string
  u_role_id :: int
  u_role :: Role
  u_active :: bool
  u_created_at :: string
  u_updated_at :: string

record RolePermission =
  rp_id :: int
  rp_role_id :: int
  rp_permission_id :: int
  rp_role :: Role
  rp_permission :: Permission
  rp_created_at :: string
  rp_updated_at :: string

text \<open>
  The \<^verbatim>\<open>data\<close> field of the envelope is typed \<^verbatim>\<open>any\<close> where the callers read it.
  The callers modelled here consume two shapes: an object with a \<^verbatim>\<open>user\<close> field
  (\<^verbatim>\<open>response.data?.user\<close>) and an array of RolePermission rows
  (\<^verbatim>\<open>Array.isArray(response.data)\<close>). \<open>OtherData\<close> is every other case: the field is
  absent, or it is neither an array nor an object with a \<^verbatim>\<open>user\<close>.
\<close>

datatype payload = OtherData | UserData User | Rows "RolePermission list"

record ApiResponse =
  success :: bool
  route :: string
  message :: string
  data :: payload
  error :: "string option"

section \<open>API client (src/lib/api.ts)\<close>

datatype http_method = GET | POST | PUT | DELETE

text \<open>
  The endpoints the modelled callers use. \<open>RolePermissionsRole_EP r\<close> is the template
  \<^verbatim>\<open>/rolepermissions/role/${roleId}\<close>; the others are the literal paths \<^verbatim>\<open>/login\<close>,
  \<^verbatim>\<open>/logout\<close>, \<^verbatim>\<open>/register\<close>, \<^verbatim>\<open>/userdata\<close> and \<^verbatim>\<open>/rolepermissions\<close>.
\<close>

datatype endpoint =
    Login_EP | Logout_EP | Register_EP | Userdata_EP
  | RolePermissions_EP | RolePermissionsRole_EP int

datatype req_payload =
    LoginBody string string
  | RegisterBody string string string int
  | RolePermissionBody int int

record request =
  req_method :: http_method
  req_endpoint :: endpoint
  req_body :: "req_payload option"

text \<open>
  What \<^verbatim>\<open>fetch\<close> gives back. A resolved response has a status, a status text and a
  body; \<^verbatim>\<open>response.json()\<close> either parses the body into an envelope or rejects with a
  \<^verbatim>\<open>SyntaxError\<close> (\<open>Malformed\<close>, with the parser's message). \<^verbatim>\<open>response.ok\<close> is the
  status being in 200..299. A rejected \<^verbatim>\<open>fetch\<close> carries the thrown value: an
  \<^verbatim>\<open>Error\<close> object with its message, or something that is not an \<^verbatim>\<open>Error\<close>.
\<close>

datatype json_result = Malformed string | Parsed ApiResponse

record Response =
  status :: nat
  statusText :: string
  json :: json_result

definition ok :: "Response \<Rightarrow> bool" where
  "ok r = (200 \<le> status r \<and> status r \<le> 299)"

datatype thrown = ErrorObject string | NonError

datatype fetch_result = Resolved Response | Rejected thrown

text \<open>A JavaScript \<^verbatim>\<open>Error\<close>: all the client throws, told apart only by the message.\<close>

datatype js_error = Error (error_message: string)

text \<open>
  The world outside the component: the network (any state \<open>'n\<close>, stepped by
  \<^verbatim>\<open>fetch\<close>), the requests issued so far in order, and the component states that were
  on screen while a request was in flight (\<open>seen\<close>, appended at each \<^verbatim>\<open>await\<close> of a
  network call by the component that awaits).
\<close>

record ('n, 's) world =
  net :: 'n
  calls :: "request list"
  seen :: "'s list"

type_synonym 'n fetch = "request \<Rightarrow> 'n \<Rightarrow> fetch_result \<times> 'n"

definition observe :: "'s \<Rightarrow> ('n, 's) world \<Rightarrow> ('n, 's) world" where
  "observe st w = w\<lparr>seen := seen w @ [st]\<rparr>"

text \<open>Decimal rendering of the status in the template \<^verbatim>\<open>HTTP ${response.status}\<close>.\<close>

fun toString :: "nat \<Rightarrow> string" where
  "toString n =
     (if n < 10 then [''0123456789'' ! n]
      else toString (n div 10) @ [''0123456789'' ! (n mod 10)])"

definition rate_limit_message :: string where
  "rate_limit_message = ''Rate limit exceeded. Please try again later.''"

text \<open>
  \<^verbatim>\<open>errorData.message || `HTTP ${response.status}: ${response.statusText}`\<close> where
  \<^verbatim>\<open>errorData\<close> is the parsed body or \<^verbatim>\<open>{}\<close>: a missing and an empty message are both
  falsy.
\<close>

definition http_error_message :: "Response \<Rightarrow> string" where
  "http_error_message r =
     (let m = (case json r of Parsed errorData \<Rightarrow> message errorData | Malformed _ \<Rightarrow> [])
      in if m \<noteq> [] then m else ''HTTP '' @ toString (status r) @ '': '' @ statusText r)"

text \<open>
  \<^verbatim>\<open>ApiClient.request\<close>. Every throw inside the \<^verbatim>\<open>try\<close> reaches the \<^verbatim>\<open>catch\<close>, which
  rethrows an \<^verbatim>\<open>Error\<close> as it is and replaces anything else by
  \<^verbatim>\<open>new Error('Network error occurred')\<close>.
\<close>

definition request ::
  "'n fetch \<Rightarrow> http_method \<Rightarrow> endpoint \<Rightarrow> req_payload option \<Rightarrow> ('n, 's) world
     \<Rightarrow> (js_error + ApiResponse) \<times> ('n, 's) world" where
  "request fetch m ep b w =
     (let config = \<lparr>req_method = m, req_endpoint = ep, req_body = b\<rparr>;
          (res, n') = fetch config (net w);
          w' = w\<lparr>net := n', calls := calls w @ [config]\<rparr>
      in (case res of
            Rejected t \<Rightarrow>
              (case t of
                 ErrorObject msg \<Rightarrow> Inl (Error msg)
               | NonError \<Rightarrow> Inl (Error ''Network error occurred''))
          | Resolved response \<Rightarrow>
              if \<not> ok response then
                (if status response = 429 then Inl (Error rate_limit_message)
                 else Inl (Error (http_error_message response)))
              else
                (case json response of
                   Malformed msg \<Rightarrow> Inl (Error msg)
                 | Parsed d \<Rightarrow> Inr d),
          w'))"

definition api_get ::
  "'n fetch \<Rightarrow> endpoint \<Rightarrow> ('n, 's) world \<Rightarrow> (js_error + ApiResponse) \<times> ('n, 's) world" where
  "api_get fetch ep w = request fetch GET ep None w"

definition api_post ::
  "'n fetch \<Rightarrow> endpoint \<Rightarrow> req_payload \<Rightarrow> ('n, 's) world
     \<Rightarrow> (js_error + ApiResponse) \<times> ('n, 's) world" where
  "api_post fetch ep d w = request fetch POST ep (Some d) w"

definition api_delete ::
  "'n fetch \<Rightarrow> endpoint \<Rightarrow> req_payload \<Rightarrow> ('n, 's) world
     \<Rightarrow> (js_error + ApiResponse) \<times> ('n, 's) world" where
  "api_delete fetch ep d w = request fetch DELETE ep (Some d) w"

text \<open>\<^verbatim>\<open>String.prototype.includes\<close>: the pattern occurs somewhere in the string.\<close>

primrec str_includes :: "string \<Rightarrow> string \<Rightarrow> bool" where
  "str_includes [] pat = (pat = [])"
| "str_includes (c # cs) pat = (take (length pat) (c # cs) = pat \<or> str_includes cs pat)"

record notification =
  title :: string
  description :: string
  variant :: string

definition handleRateLimit :: "js_error \<Rightarrow> notification" where
  "handleRateLimit e =
     (if str_includes (error_message e) ''Rate limit'' then
        \<lparr>title = ''Rate Limit Exceeded'',
         description = ''Please wait a moment before trying again.'',
         variant = ''destructive''\<rparr>
      else
        \<lparr>title = ''Error'', description = error_message e, variant = ''destructive''\<rparr>)"

section \<open>Session store (src/contexts/AuthContext.tsx)\<close>

text \<open>
  The three \<^verbatim>\<open>useState\<close> cells of \<^verbatim>\<open>AuthProvider\<close>. Toasts and \<^verbatim>\<open>console.error\<close>
  change none of them and are left out. Each operation takes the state and the world and
  returns both; the state on screen is recorded (\<open>observe\<close>) whenever the operation awaits
  the network, and the updates made between two awaits are committed together.
\<close>

record AuthState =
  user :: "User option"
  permissions :: "string list"
  loading :: bool

definition initial_auth :: AuthState where
  "initial_auth = \<lparr>user = None, permissions = [], loading = True\<rparr>"

type_synonym 'n auth_world = "('n, AuthState) world"

definition fetchPermissions ::
  "'n fetch \<Rightarrow> int \<Rightarrow> AuthState \<times> 'n auth_world \<Rightarrow> AuthState \<times> 'n auth_world" where
  "fetchPermissions fetch roleId = (\<lambda>(st, w).
     case api_get fetch (RolePermissionsRole_EP roleId) (observe st w) of
       (Inr response, w') \<Rightarrow>
         (if success response then
            (case data response of
               Rows rows \<Rightarrow>
                 (st\<lparr>permissions := map (\<lambda>rp. p_name (rp_permission rp)) rows\<rparr>, w')
             | _ \<Rightarrow> (st, w'))
          else (st, w'))
     | (Inl e, w') \<Rightarrow> (st\<lparr>permissions := []\<rparr>, w'))"

definition fetchUserData ::
  "'n fetch \<Rightarrow> AuthState \<times> 'n auth_world \<Rightarrow> AuthState \<times> 'n auth_world" where
  "fetchUserData fetch = (\<lambda>(st, w).
     let (st', w') =
       (case api_get fetch Userdata_EP (observe st w) of
          (Inr response, w1) \<Rightarrow>
            (if success response then
               (case data response of
                  UserData userData \<Rightarrow>
                    fetchPermissions fetch (u_role_id userData) (st\<lparr>user := Some userData\<rparr>, w1)
                | _ \<Rightarrow> (st, w1))
             else (st, w1))
        | (Inl e, w1) \<Rightarrow> (st, w1))
     in (st'\<lparr>loading := False\<rparr>, w'))"

definition login ::
  "'n fetch \<Rightarrow> string \<Rightarrow> string \<Rightarrow> AuthState \<times> 'n auth_world
     \<Rightarrow> bool \<times> AuthState \<times> 'n auth_world" where
  "login fetch email password = (\<lambda>(st, w).
     case api_post fetch Login_EP (LoginBody email password) (observe st w) of
       (Inr response, w') \<Rightarrow>
         (if success response then (True, fetchUserData fetch (st, w'))
          else (False, st, w'))
     | (Inl e, w') \<Rightarrow> (False, st, w'))"

definition register ::
  "'n fetch \<Rightarrow> string \<Rightarrow> string \<Rightarrow> string \<Rightarrow> int \<Rightarrow> AuthState \<times> 'n auth_world
     \<Rightarrow> bool \<times> AuthState \<times> 'n auth_world" where
  "register fetch name email password roleId = (\<lambda>(st, w).
     case api_post fetch Register_EP (RegisterBody name email password roleId) (observe st w) of
       (Inr response, w') \<Rightarrow> (success response, st, w')
     | (Inl e, w') \<Rightarrow> (False, st, w'))"

definition logout ::
  "'n fetch \<Rightarrow> AuthState \<times> 'n auth_world \<Rightarrow> AuthState \<times> 'n auth_world" where
  "logout fetch = (\<lambda>(st, w).
     case api_get fetch Logout_EP (observe st w) of
       (Inr response, w') \<Rightarrow> (st\<lparr>user := None, permissions := []\<rparr>, w')
     | (Inl e, w') \<Rightarrow> (st, w'))"

definition hasPermission :: "AuthState \<Rightarrow> string \<Rightarrow> bool" where
  "hasPermission st permission = (permission \<in> set (permissions st))"

text \<open>\<^verbatim>\<open>user?.role?.name === roleName\<close>: with no user the left side is \<^verbatim>\<open>undefined\<close>.\<close>

definition hasRole :: "AuthState \<Rightarrow> string \<Rightarrow> bool" where
  "hasRole st roleName =
     (case user st of None \<Rightarrow> False | Some u \<Rightarrow> r_name (u_role u) = roleName)"

definition isAdmin :: "AuthState \<Rightarrow> bool" where
  "isAdmin st = (hasRole st ''Super Admin'' \<or> hasRole st ''Admin'')"

text \<open>\<^verbatim>\<open>if (user?.role_id)\<close>: no user, or the role id \<open>0\<close>, is falsy.\<close>

definition refreshPermissions ::
  "'n fetch \<Rightarrow> AuthState \<times> 'n auth_world \<Rightarrow> AuthState \<times> 'n auth_world" where
  "refreshPermissions fetch = (\<lambda>(st, w).
     case user st of
       Some u \<Rightarrow> if u_role_id u \<noteq> 0 then fetchPermissions fetch (u_role_id u) (st, w) else (st, w)
     | None \<Rightarrow> (st, w))"

section \<open>The session store as the browser runs it\<close>

text \<open>
  The functions above run one operation from its start to its end. In the browser an
  operation gives up control at every \<^verbatim>\<open>await\<close> of a network call, other operations
  may start or continue meanwhile, and each \<^verbatim>\<open>setUser\<close>, \<^verbatim>\<open>setPermissions\<close> and
  \<^verbatim>\<open>setLoading\<close> writes its own cell of whatever the state is when it runs. The
  operations a user of the context can start are the mount effect (\<^verbatim>\<open>fetchUserData\<close>),
  \<^verbatim>\<open>login\<close>, \<^verbatim>\<open>register\<close>, \<^verbatim>\<open>logout\<close> and \<^verbatim>\<open>refreshPermissions\<close>.
\<close>

datatype auth_op =
    Hydrate
  | Login string string
  | Register string string string int
  | Logout
  | RefreshPermissions

text \<open>
  What is left of an operation while it waits for an answer: the rest of
  \<^verbatim>\<open>fetchUserData\<close> after \<^verbatim>\<open>api.get('/userdata')\<close>; the rest of
  \<^verbatim>\<open>fetchPermissions\<close> for a role id, with the flag telling whether the
  \<^verbatim>\<open>finally\<close> of \<^verbatim>\<open>fetchUserData\<close> follows it (it was called from there) or not (it was
  called by \<^verbatim>\<open>refreshPermissions\<close>); the rest of \<^verbatim>\<open>login\<close>, \<^verbatim>\<open>register\<close> and
  \<^verbatim>\<open>logout\<close> after their call.
\<close>

datatype task =
    AwaitUserdata
  | AwaitPermissions int bool
  | AwaitLogin
  | AwaitRegister
  | AwaitLogout

record session =
  store :: AuthState
  pending :: "task list"

definition initial_session :: session where
  "initial_session = \<lparr>store = initial_auth, pending = []\<rparr>"

text \<open>
  Starting an operation runs it up to its first \<^verbatim>\<open>await\<close>. \<^verbatim>\<open>refreshPermissions\<close>
  reads \<^verbatim>\<open>user?.role_id\<close> first and sends nothing without a user or with role id 0.
\<close>

fun start :: "auth_op \<Rightarrow> session \<Rightarrow> session" where
  "start Hydrate c = c\<lparr>pending := pending c @ [AwaitUserdata]\<rparr>"
| "start (Login email password) c = c\<lparr>pending := pending c @ [AwaitLogin]\<rparr>"
| "start (Register name email password roleId) c = c\<lparr>pending := pending c @ [AwaitRegister]\<rparr>"
| "start Logout c = c\<lparr>pending := pending c @ [AwaitLogout]\<rparr>"
| "start RefreshPermissions c =
     (case user (store c) of
        Some u \<Rightarrow>
          if u_role_id u \<noteq> 0
          then c\<lparr>pending := pending c @ [AwaitPermissions (u_role_id u) False]\<rparr>
          else c
      | None \<Rightarrow> c)"

text \<open>
  An answer (what the awaited \<^verbatim>\<open>api\<close> call returns or throws) resumes the operation
  that waited for it, up to its next \<^verbatim>\<open>await\<close> or its end. The updates made in one such
  run are committed together.
\<close>

fun resume :: "task \<Rightarrow> js_error + ApiResponse \<Rightarrow> session \<Rightarrow> session" where
  "resume AwaitUserdata answer c =
     (case answer of
        Inr response \<Rightarrow>
          (if success response then
             (case data response of
                UserData userData \<Rightarrow>
                  c\<lparr>store := (store c)\<lparr>user := Some userData\<rparr>,
                    pending := pending c @ [AwaitPermissions (u_role_id userData) True]\<rparr>
              | _ \<Rightarrow> c\<lparr>store := (store c)\<lparr>loading := False\<rparr>\<rparr>)
           else c\<lparr>store := (store c)\<lparr>loading := False\<rparr>\<rparr>)
      | Inl e \<Rightarrow> c\<lparr>store := (store c)\<lparr>loading := False\<rparr>\<rparr>)"
| "resume (AwaitPermissions roleId in_fetchUserData) answer c =
     (let st = store c;
          st' = (case answer of
                   Inr response \<Rightarrow>
                     (if success response then
                        (case data response of
                           Rows rows \<Rightarrow>
                             st\<lparr>permissions := map (\<lambda>rp. p_name (rp_permission rp)) rows\<rparr>
                         | _ \<Rightarrow> st)
                      else st)
                 | Inl e \<Rightarrow> st\<lparr>permissions := []\<rparr>)
      in c\<lparr>store := (if in_fetchUserData then st'\<lparr>loading := False\<rparr> else st')\<rparr>)"
| "resume AwaitLogin answer c =
     (case answer of
        Inr response \<Rightarrow>
          (if success response then c\<lparr>pending := pending c @ [AwaitUserdata]\<rparr> else c)
      | Inl e \<Rightarrow> c)"
| "resume AwaitRegister answer c = c"
| "resume AwaitLogout answer c =
     (case answer of
        Inr response \<Rightarrow> c\<lparr>store := (store c)\<lparr>user := None, permissions := []\<rparr>\<rparr>
      | Inl e \<Rightarrow> c)"

text \<open>
  What happens next is either the start of an operation or the arrival of the answer for
  the \<open>i\<close>-th waiting operation; answers arrive in any order. An answer for nobody
  changes nothing.
\<close>

datatype event = Start auth_op | Deliver nat "js_error + ApiResponse"

fun step :: "event \<Rightarrow> session \<Rightarrow> session" where
  "step (Start x) c = start x c"
| "step (Deliver i answer) c =
     (if i < length (pending c)
      then resume (pending c ! i) answer (c\<lparr>pending := take i (pending c) @ drop (Suc i) (pending c)\<rparr>)
      else c)"

text \<open>The sessions a run goes through, the first one included.\<close>

fun trace :: "event list \<Rightarrow> session \<Rightarrow> session list" where
  "trace [] c = [c]"
| "trace (e # es) c = c # trace es (step e c)"

text \<open>
  Three ways a run can be well-behaved. Operations run one at a time when none starts
  while another waits. A logout lands clear when no permission fetch waits at the moment
  its call returns. A run does not refresh while hydrating when \<^verbatim>\<open>refreshPermissions\<close>
  is never started with a user in a store that is still loading.
\<close>

fun is_AwaitPermissions :: "task \<Rightarrow> bool" where
  "is_AwaitPermissions (AwaitPermissions roleId in_fetchUserData) = True"
| "is_AwaitPermissions t = False"

fun one_at_a_time :: "event list \<Rightarrow> session \<Rightarrow> bool" where
  "one_at_a_time [] c = True"
| "one_at_a_time (Start x # es) c = (pending c = [] \<and> one_at_a_time es (start x c))"
| "one_at_a_time (Deliver i answer # es) c = one_at_a_time es (step (Deliver i answer) c)"

fun logouts_land_clear :: "event list \<Rightarrow> session \<Rightarrow> bool" where
  "logouts_land_clear [] c = True"
| "logouts_land_clear (Start x # es) c = logouts_land_clear es (start x c)"
| "logouts_land_clear (Deliver i answer # es) c =
     (\<not> (i < length (pending c) \<and> pending c ! i = AwaitLogout \<and> \<not> isl answer
          \<and> list_ex is_AwaitPermissions (pending c))
      \<and> logouts_land_clear es (step (Deliver i answer) c))"

fun no_refresh_while_hydrating :: "event list \<Rightarrow> session \<Rightarrow> bool" where
  "no_refresh_while_hydrating [] c = True"
| "no_refresh_while_hydrating (Start x # es) c =
     (\<not> (x = RefreshPermissions \<and> loading (store c) \<and> user (store c) \<noteq> None)
      \<and> no_refresh_while_hydrating es (start x c))"
| "no_refresh_while_hydrating (Deliver i answer # es) c =
     no_refresh_while_hydrating es (step (Deliver i answer) c)"

definition new_world :: "'n \<Rightarrow> ('n, 's) world" where
  "new_world n = \<lparr>net = n, calls = [], seen = []\<rparr>"

section \<open>Authorization guard (src/components/ProtectedRoute.tsx)\<close>

record ProtectedRouteProps =
  requiredPermission :: "string option"
  requiredRole :: "string option"
  requireAdmin :: bool

text \<open>
  What the component returns: the spinner, the \<^verbatim>\<open>Navigate\<close> to \<^verbatim>\<open>/login\<close> with the
  current location in its state, one of the three "Access Denied" views, or the children.
\<close>

datatype guard_view =
    LoadingSpinner
  | NavigateLogin string
  | AdminDenied
  | RoleDenied string
  | PermissionDenied string
  | Children

text \<open>An optional string prop in a condition: \<^verbatim>\<open>undefined\<close> and \<^verbatim>\<open>''\<close> are falsy.\<close>

definition truthy :: "string option \<Rightarrow> bool" where
  "truthy x = (case x of None \<Rightarrow> False | Some s \<Rightarrow> s \<noteq> [])"

definition ProtectedRoute :: "ProtectedRouteProps \<Rightarrow> string \<Rightarrow> AuthState \<Rightarrow> guard_view" where
  "ProtectedRoute props location st =
     (if loading st then LoadingSpinner
      else if user st = None then NavigateLogin location
      else if requireAdmin props \<and> \<not> isAdmin st then AdminDenied
      else if truthy (requiredRole props) \<and> \<not> hasRole st (the (requiredRole props))
        then RoleDenied (the (requiredRole props))
      else if truthy (requiredPermission props)
              \<and> \<not> hasPermission st (the (requiredPermission props))
        then PermissionDenied (the (requiredPermission props))
      else Children)"

section \<open>Role-permission assignment screen (src/pages/RolePermissions.tsx)\<close>

text \<open>
  The \<^verbatim>\<open>useState\<close> cells of the component. \<^verbatim>\<open>selectedRole\<close> is a string in the
  source: \<^verbatim>\<open>''\<close> until a role is chosen, then \<^verbatim>\<open>role.id.toString()\<close> of the chosen role,
  read back with \<^verbatim>\<open>parseInt\<close>; it is modelled as \<open>None\<close> and \<open>Some id\<close>, so that
  \<^verbatim>\<open>!selectedRole\<close> is \<open>selectedRole = None\<close>. \<^verbatim>\<open>changes\<close> is the \<^verbatim>\<open>Set<number>\<close> of
  toggled permission ids. Toasts are left out.
\<close>

record Screen =
  sc_roles :: "Role list"
  sc_permissions :: "Permission list"
  rolePermissions :: "RolePermission list"
  selectedRole :: "int option"
  sc_loading :: bool
  saving :: bool
  changes :: "int set"

type_synonym 'n screen_world = "('n, Screen) world"

definition fetchRolePermissions ::
  "'n fetch \<Rightarrow> int \<Rightarrow> Screen \<times> 'n screen_world \<Rightarrow> Screen \<times> 'n screen_world" where
  "fetchRolePermissions fetch roleId = (\<lambda>(scr, w).
     case api_get fetch (RolePermissionsRole_EP roleId) (observe scr w) of
       (Inr response, w') \<Rightarrow>
         (if success response then
            (case data response of
               Rows rows \<Rightarrow> (scr\<lparr>rolePermissions := rows\<rparr>, w')
             | _ \<Rightarrow> (scr, w'))
          else (scr, w'))
     | (Inl e, w') \<Rightarrow> (scr, w'))"

definition hasRolePermission :: "Screen \<Rightarrow> int \<Rightarrow> bool" where
  "hasRolePermission scr permissionId =
     list_ex (\<lambda>rp. rp_permission_id rp = permissionId) (rolePermissions scr)"

text \<open>
  \<^verbatim>\<open>togglePermission\<close>. The guard returns before anything is sent; the membership test
  reads the local list; \<^verbatim>\<open>api.delete\<close> or \<^verbatim>\<open>api.post\<close> is awaited inside the
  \<^verbatim>\<open>try\<close>, and a throw there skips the refetch. \<^verbatim>\<open>fetchRolePermissions\<close> catches its
  own errors, so \<^verbatim>\<open>setChanges\<close> runs whenever the first call returned.
\<close>

definition togglePermission ::
  "'n fetch \<Rightarrow> AuthState \<Rightarrow> int \<Rightarrow> Screen \<times> 'n screen_world \<Rightarrow> Screen \<times> 'n screen_world" where
  "togglePermission fetch auth permissionId = (\<lambda>(scr, w).
     case selectedRole scr of
       None \<Rightarrow> (scr, w)
     | Some role \<Rightarrow>
         if \<not> hasPermission auth ''permission.assign'' then (scr, w)
         else
           let hasPermissionCurrently = hasRolePermission scr permissionId in
           (case (if hasPermissionCurrently
                  then api_delete fetch RolePermissions_EP
                         (RolePermissionBody role permissionId) (observe scr w)
                  else api_post fetch RolePermissions_EP
                         (RolePermissionBody role permissionId) (observe scr w)) of
              (Inr response, w1) \<Rightarrow>
                (let (scr2, w2) = fetchRolePermissions fetch role (scr, w1)
                 in (scr2\<lparr>changes := insert permissionId (changes scr2)\<rparr>, w2))
            | (Inl e, w1) \<Rightarrow> (scr, w1)))"

text \<open>The request a toggle sends first, and the refetch that may follow it.\<close>

definition toggle_request :: "Screen \<Rightarrow> int \<Rightarrow> int \<Rightarrow> request" where
  "toggle_request scr role permissionId =
     \<lparr>req_method = (if hasRolePermission scr permissionId then DELETE else POST),
      req_endpoint = RolePermissions_EP,
      req_body = Some (RolePermissionBody role permissionId)\<rparr>"

definition refetch_request :: "int \<Rightarrow> request" where
  "refetch_request role =
     \<lparr>req_method = GET, req_endpoint = RolePermissionsRole_EP role, req_body = None\<rparr>"

section \<open>Permission-gated views (src/pages/Users.tsx, Roles.tsx, Permissions.tsx, RolePermissions.tsx)\<close>

text \<open>
  The render output of a screen, reduced to its controls in document order: a button with
  its label and \<^verbatim>\<open>disabled\<close> flag, a dropdown menu item with its label, a checkbox
  with its permission id, \<^verbatim>\<open>checked\<close> and \<^verbatim>\<open>disabled\<close>. A JSX expression
  \<^verbatim>\<open>{cond && (<X/>)}\<close> contributes \<^verbatim>\<open>X\<close> when \<open>cond\<close> holds and nothing otherwise.
  Static markup, the search input and the role select are left out. While
  \<^verbatim>\<open>loading\<close>, a screen renders only the spinner. A component that throws while
  rendering has no render output: its result is the error.
\<close>

datatype element =
    Button string bool
  | MenuItem string
  | Checkbox int bool bool

text \<open>
  The list screens filter their rows with a case-insensitive search; the filter callback
  is the parameter \<open>search\<close>.
\<close>

definition Users_render :: "AuthState \<Rightarrow> bool \<Rightarrow> (User \<Rightarrow> bool) \<Rightarrow> User list \<Rightarrow> element list" where
  "Users_render auth loading' search users =
     (if loading' then []
      else
        (if hasPermission auth ''user.create'' then [Button ''Add User'' False] else [])
        @ concat (map (\<lambda>u.
            [Button ''Open menu'' False, MenuItem ''View details'']
            @ (if hasPermission auth ''user.update'' then [MenuItem ''Edit user''] else [])
            @ (if hasPermission auth ''user.update''
               then [MenuItem (if u_active u then ''Deactivate'' else ''Activate'')] else [])
            @ (if hasPermission auth ''user.delete'' then [MenuItem ''Delete user''] else []))
          (filter search users)))"

definition Roles_render :: "AuthState \<Rightarrow> bool \<Rightarrow> (Role \<Rightarrow> bool) \<Rightarrow> Role list \<Rightarrow> element list" where
  "Roles_render auth loading' search roles =
     (if loading' then []
      else
        (if hasPermission auth ''role.create'' then [Button ''Add Role'' False] else [])
        @ concat (map (\<lambda>role.
            [Button ''Open menu'' False, MenuItem ''View permissions'']
            @ (if hasPermission auth ''role.update'' then [MenuItem ''Edit role''] else [])
            @ (if hasPermission auth ''role.update''
               then [MenuItem (if r_active role then ''Deactivate'' else ''Activate'')] else [])
            @ (if hasPermission auth ''role.delete''
                  \<and> r_name role \<notin> set [''Super Admin'', ''Admin'']
               then [MenuItem ''Delete role''] else []))
          (filter search roles)))"

text \<open>
  \<^verbatim>\<open>groupPermissionsByCategory\<close> and the same \<^verbatim>\<open>reduce\<close> in the Permissions screen.
  The category is the part of the name before the first dot
  (\<^verbatim>\<open>permission.name.split('.')[0]\<close>). The accumulator is a plain object, here the
  list of its own properties in the order they were created. \<^verbatim>\<open>groups[category]\<close>
  also finds what a plain object inherits from \<^verbatim>\<open>Object.prototype\<close>: for a category
  with one of those names the test \<^verbatim>\<open>!groups[category]\<close> is false, nothing is
  created, and \<^verbatim>\<open>groups[category].push\<close> throws a \<^verbatim>\<open>TypeError\<close>.
\<close>

definition category_of :: "Permission \<Rightarrow> string" where
  "category_of permission = takeWhile (\<lambda>c. c \<noteq> CHR ''.'') (p_name permission)"

definition Object_prototype_keys :: "string list" where
  "Object_prototype_keys =
     [''constructor'', ''__defineGetter__'', ''__defineSetter__'', ''hasOwnProperty'',
      ''__lookupGetter__'', ''__lookupSetter__'', ''isPrototypeOf'', ''propertyIsEnumerable'',
      ''toString'', ''valueOf'', ''__proto__'', ''toLocaleString'']"

type_synonym groups = "(string \<times> Permission list) list"

fun reduce_groups :: "Permission list \<Rightarrow> groups \<Rightarrow> js_error + groups" where
  "reduce_groups [] groups = Inr groups"
| "reduce_groups (permission # rest) groups =
     (let category = category_of permission in
      if category \<in> set Object_prototype_keys
      then Inl (Error ''groups[category].push is not a function'')
      else reduce_groups rest
             (case map_of groups category of
                None \<Rightarrow> groups @ [(category, [permission])]
              | Some members \<Rightarrow>
                  map (\<lambda>(k, v). if k = category then (k, v @ [permission]) else (k, v)) groups))"

definition groupPermissionsByCategory :: "Permission list \<Rightarrow> js_error + groups" where
  "groupPermissionsByCategory perms = reduce_groups perms []"

text \<open>
  \<^verbatim>\<open>Object.entries\<close> lists the keys that are array indices first, in ascending numeric
  order, and then the other keys in the order of their creation. An array index is the
  canonical decimal form of an integer below \<open>2\<^sup>3\<^sup>2 - 1\<close>: digits only, no leading zero.
\<close>

definition is_digit :: "char \<Rightarrow> bool" where
  "is_digit c = (c \<in> set ''0123456789'')"

definition digit_value :: "char \<Rightarrow> nat" where
  "digit_value c = length (takeWhile (\<lambda>d. d \<noteq> c) ''0123456789'')"

definition array_index :: "string \<Rightarrow> nat" where
  "array_index s = foldl (\<lambda>n c. 10 * n + digit_value c) 0 s"

definition is_array_index :: "string \<Rightarrow> bool" where
  "is_array_index s =
     (s \<noteq> [] \<and> list_all is_digit s \<and> (s = ''0'' \<or> hd s \<noteq> CHR ''0'')
      \<and> array_index s < 4294967295)"

definition Object_entries :: "groups \<Rightarrow> groups" where
  "Object_entries groups =
     sort_key (\<lambda>g. array_index (fst g)) (filter (\<lambda>g. is_array_index (fst g)) groups)
     @ filter (\<lambda>g. \<not> is_array_index (fst g)) groups"

text \<open>
  The Permissions screen groups the filtered permissions on every render, before it looks
  at \<^verbatim>\<open>loading\<close>; the groups only feed the summary cards.
\<close>

definition Permissions_render ::
  "AuthState \<Rightarrow> bool \<Rightarrow> (Permission \<Rightarrow> bool) \<Rightarrow> Permission list \<Rightarrow> js_error + element list" where
  "Permissions_render auth loading' search perms =
     (case groupPermissionsByCategory (filter search perms) of
        Inl e \<Rightarrow> Inl e
      | Inr groupedPermissions \<Rightarrow>
          Inr (if loading' then []
               else
                 (if hasPermission auth ''permission.create''
                  then [Button ''Add Permission'' False] else [])
                 @ concat (map (\<lambda>permission.
                     [Button ''Open menu'' False, MenuItem ''View usage'',
                      MenuItem ''Copy permission name'']
                     @ (if hasPermission auth ''permission.delete''
                        then [MenuItem ''Delete permission''] else []))
                   (filter search perms))))"

text \<open>
  The permission each gated control of a list screen depends on: the argument of the
  \<^verbatim>\<open>hasPermission\<close> call that wraps it in the source. Controls that are not wrapped
  have none.
\<close>

fun Users_gate :: "element \<Rightarrow> string option" where
  "Users_gate (Button label d) = (if label = ''Add User'' then Some ''user.create'' else None)"
| "Users_gate (MenuItem label) =
     (if label \<in> set [''Edit user'', ''Deactivate'', ''Activate''] then Some ''user.update''
      else if label = ''Delete user'' then Some ''user.delete'' else None)"
| "Users_gate (Checkbox i c d) = None"

fun Roles_gate :: "element \<Rightarrow> string option" where
  "Roles_gate (Button label d) = (if label = ''Add Role'' then Some ''role.create'' else None)"
| "Roles_gate (MenuItem label) =
     (if label \<in> set [''Edit role'', ''Deactivate'', ''Activate''] then Some ''role.update''
      else if label = ''Delete role'' then Some ''role.delete'' else None)"
| "Roles_gate (Checkbox i c d) = None"

fun Permissions_gate :: "element \<Rightarrow> string option" where
  "Permissions_gate (Button label d) =
     (if label = ''Add Permission'' then Some ''permission.create'' else None)"
| "Permissions_gate (MenuItem label) =
     (if label = ''Delete permission'' then Some ''permission.delete'' else None)"
| "Permissions_gate (Checkbox i c d) = None"

text \<open>
  The assignment screen groups all permissions on every render, before it looks at
  \<^verbatim>\<open>loading\<close>. Then: the Refresh button, disabled while no role is selected, and, once a
  role is selected, one checkbox per permission, category by category in the order of
  \<^verbatim>\<open>Object.entries\<close>, with \<^verbatim>\<open>checked={hasRolePermission(permission.id)}\<close> and
  \<^verbatim>\<open>disabled={!hasPermission('permission.assign')}\<close>.
\<close>

definition RolePermissions_render :: "AuthState \<Rightarrow> Screen \<Rightarrow> js_error + element list" where
  "RolePermissions_render auth scr =
     (case groupPermissionsByCategory (sc_permissions scr) of
        Inl e \<Rightarrow> Inl e
      | Inr groupedPermissions \<Rightarrow>
          Inr (if sc_loading scr then []
               else
                 [Button ''Refresh'' (selectedRole scr = None)]
                 @ (case selectedRole scr of
                      None \<Rightarrow> []
                    | Some role \<Rightarrow>
                        concat (map (\<lambda>(category, categoryPermissions).
                            map (\<lambda>permission.
                                Checkbox (p_id permission)
                                  (hasRolePermission scr (p_id permission))
                                  (\<not> hasPermission auth ''permission.assign''))
                              categoryPermissions)
                          (Object_entries groupedPermissions)))))"

section \<open>Concrete data and networks used to run the model\<close>

definition admin_role :: Role where
  "admin_role = \<lparr>r_id = 1, r_name = ''Admin'', r_description = ''Administrators'',
     r_active = True, r_created_at = ''2024-01-01'', r_updated_at = ''2024-01-01''\<rparr>"

definition manager_role :: Role where
  "manager_role = \<lparr>r_id = 2, r_name = ''Manager'', r_description = ''Managers'',
     r_active = True, r_created_at = ''2024-01-01'', r_updated_at = ''2024-01-01''\<rparr>"

definition alice :: User where
  "alice = \<lparr>u_id = 10, u_name = ''Alice'', u_email = ''alice@example.org'', u_role_id = 1,
     u_role = admin_role, u_active = True,
     u_created_at = ''2024-01-02'', u_updated_at = ''2024-01-02''\<rparr>"

definition bob :: User where
  "bob = \<lparr>u_id = 11, u_name = ''Bob'', u_email = ''bob@example.org'', u_role_id = 2,
     u_role = manager_role, u_active = True,
     u_created_at = ''2024-01-03'', u_updated_at = ''2024-01-03''\<rparr>"

definition user_read :: Permission where
  "user_read = \<lparr>p_id = 7, p_name = ''user.read'', p_description = ''Read users'',
     p_created_at = ''2024-01-01'', p_updated_at = ''2024-01-01''\<rparr>"

definition manager_user_read :: RolePermission where
  "manager_user_read = \<lparr>rp_id = 100, rp_role_id = 2, rp_permission_id = 7,
     rp_role = manager_role, rp_permission = user_read,
     rp_created_at = ''2024-01-04'', rp_updated_at = ''2024-01-04''\<rparr>"

definition envelope :: "bool \<Rightarrow> string \<Rightarrow> payload \<Rightarrow> ApiResponse" where
  "envelope s m d = \<lparr>success = s, route = ''/api'', message = m, data = d, error = None\<rparr>"

definition respond :: "nat \<Rightarrow> string \<Rightarrow> ApiResponse \<Rightarrow> fetch_result" where
  "respond code text e = Resolved \<lparr>status = code, statusText = text, json = Parsed e\<rparr>"

text \<open>A network that answers every request the same way, and one that is unreachable.\<close>

definition fetch_always :: "fetch_result \<Rightarrow> unit fetch" where
  "fetch_always res = (\<lambda>rq n. (res, n))"

definition fetch_offline :: "unit fetch" where
  "fetch_offline = fetch_always (Rejected (ErrorObject ''Failed to fetch''))"

text \<open>
  A server with a session for Alice (role Admin): \<^verbatim>\<open>/userdata\<close> answers with her
  identity, every other request is answered 200 with an envelope that has no data.
\<close>

definition fetch_alice :: "unit fetch" where
  "fetch_alice = (\<lambda>rq n.
     (case req_endpoint rq of
        Userdata_EP \<Rightarrow> respond 200 ''OK'' (envelope True ''ok'' (UserData alice))
      | _ \<Rightarrow> respond 200 ''OK'' (envelope True ''ok'' OtherData), n))"

definition bob_session :: AuthState where
  "bob_session = \<lparr>user = Some bob, permissions = [''user.read''], loading = False\<rparr>"

definition assigner_session :: AuthState where
  "assigner_session =
     \<lparr>user = Some alice, permissions = [''permission.read'', ''permission.assign''],
      loading = False\<rparr>"

text \<open>The screen with the Manager role selected and nothing assigned yet.\<close>

definition manager_screen :: Screen where
  "manager_screen =
     \<lparr>sc_roles = [admin_role, manager_role], sc_permissions = [user_read],
      rolePermissions = [], selectedRole = Some 2, sc_loading = False, saving = False,
      changes = {}\<rparr>"

definition example_row :: "int \<Rightarrow> int \<Rightarrow> RolePermission" where
  "example_row r p = manager_user_read"

text \<open>
  Runs of the session store. In each, the mount effect finds a session. In the orderly
  run Bob's permissions arrive and he then logs out. In the overtaking run he logs out
  while the permission fetch is still in flight, and its answer arrives after the logout
  has cleared the store. In the hydrating run Alice's identity has arrived and her
  permissions have not. In the refreshing run \<^verbatim>\<open>refreshPermissions\<close> is called at that
  moment and answered first.
\<close>

definition answer_ok :: "payload \<Rightarrow> js_error + ApiResponse" where
  "answer_ok d = Inr (envelope True ''ok'' d)"

definition orderly_run :: "event list" where
  "orderly_run =
     [Start Hydrate, Deliver 0 (answer_ok (UserData bob)),
      Deliver 0 (answer_ok (Rows [manager_user_read])),
      Start Logout, Deliver 0 (answer_ok OtherData)]"

definition overtaking_run :: "event list" where
  "overtaking_run =
     [Start Hydrate, Deliver 0 (answer_ok (UserData bob)),
      Start Logout, Deliver 1 (answer_ok OtherData),
      Deliver 0 (answer_ok (Rows [manager_user_read]))]"

definition hydrating_run :: "event list" where
  "hydrating_run = [Start Hydrate, Deliver 0 (answer_ok (UserData alice))]"

definition refreshing_run :: "event list" where
  "refreshing_run =
     [Start Hydrate, Deliver 0 (answer_ok (UserData bob)),
      Start RefreshPermissions, Deliver 1 (answer_ok (Rows [manager_user_read]))]"

text \<open>
  A row that assigns \<^verbatim>\<open>user.read\<close> to the Admin role, and a permission with a given id
  and name.
\<close>

definition admin_user_read :: RolePermission where
  "admin_user_read = \<lparr>rp_id = 101, rp_role_id = 1, rp_permission_id = 7,
     rp_role = admin_role, rp_permission = user_read,
     rp_created_at = ''2024-01-05'', rp_updated_at = ''2024-01-05''\<rparr>"

definition named :: "int \<Rightarrow> string \<Rightarrow> Permission" where
  "named i n = \<lparr>p_id = i, p_name = n, p_description = ''a permission'',
     p_created_at = ''2024-01-01'', p_updated_at = ''2024-01-01''\<rparr>"

section \<open>The remote API for role-permission assignments\<close>

text \<open>A table of assignment rows assigns permission \<open>p\<close> to role \<open>r\<close> when it has a row for the pair.\<close>

definition assigned :: "int \<Rightarrow> int \<Rightarrow> RolePermission list \<Rightarrow> bool" where
  "assigned r p table = list_ex (\<lambda>row. rp_role_id row = r \<and> rp_permission_id row = p) table"

text \<open>
  Modelled from the spec: the remote API is not part of the repository; section 6 of the
  spec gives its three assignment endpoints. \<^verbatim>\<open>GET /rolepermissions/role/:roleId\<close>
  lists the assignments of a role, \<^verbatim>\<open>POST /rolepermissions\<close> with
  \<^verbatim>\<open>{role_id, permission_id}\<close> grants, \<^verbatim>\<open>DELETE /rolepermissions\<close> with the same body
  revokes; the existence of a row for a (role, permission) pair is the sole source of truth,
  and a grant or revoke is idempotent. The state is the table of rows. \<open>mk\<close> supplies
  the row a grant creates (its id, the copies of role and permission, the timestamps); the
  server sets the two key fields. Every such request is answered 200 with
  \<^verbatim>\<open>success: true\<close>, anything else 404.
\<close>

definition api_server :: "(int \<Rightarrow> int \<Rightarrow> RolePermission) \<Rightarrow> RolePermission list fetch" where
  "api_server mk rq table =
     (case (req_method rq, req_endpoint rq, req_body rq) of
        (GET, RolePermissionsRole_EP r, _) \<Rightarrow>
          (respond 200 ''OK''
             (envelope True ''Role permissions'' (Rows (filter (\<lambda>row. rp_role_id row = r) table))),
           table)
      | (POST, RolePermissions_EP, Some (RolePermissionBody r p)) \<Rightarrow>
          (respond 200 ''OK'' (envelope True ''Permission granted'' OtherData),
           if assigned r p table then table
           else table @ [(mk r p)\<lparr>rp_role_id := r, rp_permission_id := p\<rparr>])
      | (DELETE, RolePermissions_EP, Some (RolePermissionBody r p)) \<Rightarrow>
          (respond 200 ''OK'' (envelope True ''Permission revoked'' OtherData),
           filter (\<lambda>row. \<not> (rp_role_id row = r \<and> rp_permission_id row = p)) table)
      | _ \<Rightarrow> (respond 404 ''Not Found'' (envelope False ''Not found'' OtherData), table))"

text \<open>
  Modelled from the spec: the same API when it may let a caller down. Section 6 of the spec
  tells a \<^verbatim>\<open>success: false\<close> body (a refusal) from a transport failure. Each request
  takes the next entry of a plan: it is served as above, refused with a 200 answer whose
  \<^verbatim>\<open>success\<close> is false, or dropped with a rejected \<^verbatim>\<open>fetch\<close>; a refused or dropped
  request leaves the table as it is. Once the plan is used up every request is served.
\<close>

datatype fault = Serve | Refuse | Drop

definition flaky_server ::
  "(int \<Rightarrow> int \<Rightarrow> RolePermission) \<Rightarrow> (fault list \<times> RolePermission list) fetch" where
  "flaky_server mk rq = (\<lambda>(plan, table).
     case plan of
       [] \<Rightarrow> (let (res, table') = api_server mk rq table in (res, ([], table')))
     | Serve # rest \<Rightarrow> (let (res, table') = api_server mk rq table in (res, (rest, table')))
     | Refuse # rest \<Rightarrow>
         (respond 200 ''OK'' (envelope False ''Refused'' OtherData), (rest, table))
     | Drop # rest \<Rightarrow> (Rejected (ErrorObject ''Failed to fetch''), (rest, table)))"

section \<open>Invariants of the session store\<close>

text \<open>
  \<open>without i c\<close> is the session once the \<open>i\<close>-th waiting operation has been taken out
  to be resumed. With no identity there are no permissions and no permission fetch waits. While loading
  there are no permissions and no \<^verbatim>\<open>refreshPermissions\<close> waits. When operations run one
  at a time at most one waits, and a loading store with an identity waits for the
  permission fetch of \<^verbatim>\<open>fetchUserData\<close>.
\<close>

definition without :: "nat \<Rightarrow> session \<Rightarrow> session" where
  "without i c = c\<lparr>pending := take i (pending c) @ drop (Suc i) (pending c)\<rparr>"

fun is_refresh :: "task \<Rightarrow> bool" where
  "is_refresh (AwaitPermissions roleId in_fetchUserData) = (\<not> in_fetchUserData)"
| "is_refresh t = False"

definition identity_inv :: "session \<Rightarrow> bool" where
  "identity_inv c =
     (user (store c) = None \<longrightarrow>
        permissions (store c) = [] \<and> \<not> list_ex is_AwaitPermissions (pending c))"

definition hydrating_inv :: "session \<Rightarrow> bool" where
  "hydrating_inv c =
     (loading (store c) \<longrightarrow>
        permissions (store c) = [] \<and> \<not> list_ex is_refresh (pending c))"

definition sequential_inv :: "session \<Rightarrow> bool" where
  "sequential_inv c =
     (length (pending c) \<le> 1
      \<and> (loading (store c) \<and> user (store c) \<noteq> None \<longrightarrow>
           (\<exists>roleId. pending c = [AwaitPermissions roleId True])))"

text \<open>A session in which nothing waits.\<close>

definition alone :: "AuthState \<Rightarrow> session" where
  "alone st = \<lparr>store = st, pending = []\<rparr>"

section \<open>Helper facts about the client\<close>

lemma request_seen: "seen (snd (request fetch m ep b w)) = seen w"
  by (simp add: request_def Let_def split: prod.splits)

lemma request_calls:
  "calls (snd (request fetch m ep b w)) = calls w @ [\<lparr>req_method = m, req_endpoint = ep, req_body = b\<rparr>]"
  by (simp add: request_def Let_def split: prod.splits)

section \<open>Session store: one operation from start to end\<close>

text \<open>
  C1 (as amended). \<^verbatim>\<open>logout\<close> clears the identity and the permission list when the
  call to \<^verbatim>\<open>/logout\<close> returns an envelope (whatever its \<^verbatim>\<open>success\<close> flag): then
  \<^verbatim>\<open>hasPermission\<close> is false for every name, and any further \<^verbatim>\<open>logout\<close>, whatever
  its own outcome, leaves that state as it is. When the call throws (transport failure,
  non-2xx status, unreadable body) the \<^verbatim>\<open>catch\<close> only logs, and the state is the one
  before the call.
\<close>

theorem logout_clears_when_call_returns:
  "(\<forall>response w'. api_get fetch Logout_EP (observe st w) = (Inr response, w') \<longrightarrow>
      user (fst (logout fetch (st, w))) = None
      \<and> permissions (fst (logout fetch (st, w))) = []
      \<and> (\<forall>p. \<not> hasPermission (fst (logout fetch (st, w))) p)
      \<and> (\<forall>fetch' w''. fst (logout fetch' (fst (logout fetch (st, w)), w'')) = fst (logout fetch (st, w))))
   \<and> (\<forall>e w'. api_get fetch Logout_EP (observe st w) = (Inl e, w') \<longrightarrow>
        fst (logout fetch (st, w)) = st)"
  by (auto simp: logout_def hasPermission_def split: prod.splits sum.splits)

text \<open>
  With the network unreachable, logging Bob out changes nothing: he is still the
  identity and still holds \<^verbatim>\<open>user.read\<close>.
\<close>

theorem logout_failed_call_keeps_session:
  "fst (logout fetch_offline (bob_session, new_world ())) = bob_session
   \<and> user (fst (logout fetch_offline (bob_session, new_world ()))) \<noteq> None
   \<and> hasPermission (fst (logout fetch_offline (bob_session, new_world ()))) ''user.read''"
  by (simp add: logout_def api_get_def request_def fetch_offline_def fetch_always_def
      bob_session_def hasPermission_def)

text \<open>Both branches at Bob's session: a server that answers, and no network.\<close>

theorem logout_clears_when_call_returns_witness:
  "api_get fetch_alice Logout_EP (observe bob_session (new_world ()))
     = (Inr (envelope True ''ok'' OtherData),
        \<lparr>net = (), calls = [\<lparr>req_method = GET, req_endpoint = Logout_EP, req_body = None\<rparr>],
         seen = [bob_session]\<rparr>)
   \<and> user (fst (logout fetch_alice (bob_session, new_world ()))) = None
   \<and> permissions (fst (logout fetch_alice (bob_session, new_world ()))) = []
   \<and> \<not> hasPermission (fst (logout fetch_alice (bob_session, new_world ()))) ''user.read''
   \<and> api_get fetch_offline Logout_EP (observe bob_session (new_world ()))
     = (Inl (Error ''Failed to fetch''),
        \<lparr>net = (), calls = [\<lparr>req_method = GET, req_endpoint = Logout_EP, req_body = None\<rparr>],
         seen = [bob_session]\<rparr>)
   \<and> fst (logout fetch_offline (bob_session, new_world ())) = bob_session"
proof -
  have a: "api_get fetch_alice Logout_EP (observe bob_session (new_world ()))
     = (Inr (envelope True ''ok'' OtherData),
        \<lparr>net = (), calls = [\<lparr>req_method = GET, req_endpoint = Logout_EP, req_body = None\<rparr>],
         seen = [bob_session]\<rparr>)"
    by (simp add: api_get_def request_def fetch_alice_def respond_def ok_def observe_def new_world_def)
  have b: "api_get fetch_offline Logout_EP (observe bob_session (new_world ()))
     = (Inl (Error ''Failed to fetch''),
        \<lparr>net = (), calls = [\<lparr>req_method = GET, req_endpoint = Logout_EP, req_body = None\<rparr>],
         seen = [bob_session]\<rparr>)"
    by (simp add: api_get_def request_def fetch_offline_def fetch_always_def observe_def new_world_def)
  from a b logout_clears_when_call_returns [of fetch_alice bob_session "new_world ()"]
    logout_clears_when_call_returns [of fetch_offline bob_session "new_world ()"]
  show ?thesis by blast
qed

text \<open>
  What \<^verbatim>\<open>fetchPermissions\<close> does on the two outcomes it handles: a thrown error empties
  the list, a successful envelope with rows replaces it by the rows' permission names.
\<close>

lemma fetchPermissions_throw_clears:
  "api_get fetch (RolePermissionsRole_EP roleId) (observe st w) = (Inl e, w')
   \<Longrightarrow> fetchPermissions fetch roleId (st, w) = (st\<lparr>permissions := []\<rparr>, w')"
  by (simp add: fetchPermissions_def)

lemma fetchPermissions_success_replaces:
  "api_get fetch (RolePermissionsRole_EP roleId) (observe st w) = (Inr response, w')
   \<Longrightarrow> success response \<Longrightarrow> data response = Rows rows
   \<Longrightarrow> fetchPermissions fetch roleId (st, w)
       = (st\<lparr>permissions := map (\<lambda>rp. p_name (rp_permission rp)) rows\<rparr>, w')"
  by (simp add: fetchPermissions_def)

text \<open>
  C2. A failing permission fetch should leave the resolved permission list empty rather
  than stale. The \<^verbatim>\<open>catch\<close> of \<^verbatim>\<open>fetchPermissions\<close> does that for a thrown error, but
  the \<^verbatim>\<open>if\<close> on \<^verbatim>\<open>response.success && Array.isArray(response.data)\<close> has no
  \<^verbatim>\<open>else\<close>: after a 200 answer whose \<^verbatim>\<open>success\<close> is false, and after one whose data
  is not a list, Bob still has the permission \<^verbatim>\<open>user.read\<close> that was resolved earlier.
\<close>

theorem fetchPermissions_unsuccessful_envelope_keeps_stale_set:
  "permissions (fst (fetchPermissions
      (fetch_always (respond 200 ''OK'' (envelope False ''Role not found'' OtherData))) 2
      (bob_session, new_world ()))) = [''user.read'']
   \<and> permissions (fst (fetchPermissions
      (fetch_always (respond 200 ''OK'' (envelope True ''ok'' OtherData))) 2
      (bob_session, new_world ()))) = [''user.read'']"
  by (simp add: fetchPermissions_def api_get_def request_def fetch_always_def respond_def
      envelope_def ok_def bob_session_def)

text \<open>
  C8. \<^verbatim>\<open>isAdmin()\<close> is \<^verbatim>\<open>hasRole('Super Admin') || hasRole('Admin')\<close>, and
  \<^verbatim>\<open>hasRole(name)\<close> holds exactly when there is an identity whose role name equals
  \<^verbatim>\<open>name\<close>; so \<^verbatim>\<open>isAdmin()\<close> holds exactly when the identity's role name is one of
  the two.
\<close>

theorem isAdmin_iff_privileged_role_name:
  "isAdmin st = (hasRole st ''Super Admin'' \<or> hasRole st ''Admin'')
   \<and> hasRole st roleName = (\<exists>u. user st = Some u \<and> r_name (u_role u) = roleName)
   \<and> isAdmin st = (\<exists>u. user st = Some u \<and> r_name (u_role u) \<in> {''Super Admin'', ''Admin''})"
  by (auto simp: isAdmin_def hasRole_def split: option.splits)

section \<open>Session store: an operation alone in the browser\<close>

text \<open>
  An operation that runs alone, in a session where nothing else waits, goes through the
  same stores as the function that runs it from start to end: the answers are those
  \<^verbatim>\<open>api.get\<close> and \<^verbatim>\<open>api.post\<close> give on the way.
\<close>

lemma logout_as_events:
  "fst (logout fetch (st, w))
     = store (step (Deliver 0 (fst (api_get fetch Logout_EP (observe st w))))
                (start Logout (alone st)))"
  by (cases "api_get fetch Logout_EP (observe st w)")
     (auto simp: logout_def alone_def split: sum.splits)

lemma fetchPermissions_as_events:
  "fst (fetchPermissions fetch roleId (st, w))
     = store (resume (AwaitPermissions roleId False)
                (fst (api_get fetch (RolePermissionsRole_EP roleId) (observe st w))) (alone st))"
  by (cases "api_get fetch (RolePermissionsRole_EP roleId) (observe st w)")
     (auto simp: fetchPermissions_def alone_def Let_def split: sum.splits payload.splits)

lemma fetchPermissions_then_finally_as_events:
  "(fst (fetchPermissions fetch roleId (st, w)))\<lparr>loading := False\<rparr>
     = store (resume (AwaitPermissions roleId True)
                (fst (api_get fetch (RolePermissionsRole_EP roleId) (observe st w))) (alone st))"
  by (cases "api_get fetch (RolePermissionsRole_EP roleId) (observe st w)")
     (auto simp: fetchPermissions_def alone_def Let_def split: sum.splits payload.splits)

lemma refreshPermissions_as_events:
  "fst (refreshPermissions fetch (st, w))
     = (case pending (start RefreshPermissions (alone st)) of
          [AwaitPermissions roleId in_fetchUserData] \<Rightarrow>
            store (step (Deliver 0
                     (fst (api_get fetch (RolePermissionsRole_EP roleId) (observe st w))))
                   (start RefreshPermissions (alone st)))
        | _ \<Rightarrow> st)"
  using fetchPermissions_as_events [of fetch _ st w]
  by (auto simp: refreshPermissions_def alone_def split: option.splits)

lemma fetchUserData_as_events:
  "fst (fetchUserData fetch (st, w))
     = (let a = api_get fetch Userdata_EP (observe st w);
            c = step (Deliver 0 (fst a)) (start Hydrate (alone st))
        in case pending c of
             [AwaitPermissions roleId in_fetchUserData] \<Rightarrow>
               store (step (Deliver 0
                        (fst (api_get fetch (RolePermissionsRole_EP roleId)
                                (observe (store c) (snd a))))) c)
           | _ \<Rightarrow> store c)"
proof (cases "api_get fetch Userdata_EP (observe st w)")
  case (Pair r w1)
  show ?thesis
  proof (cases r)
    case (Inl e)
    with Pair show ?thesis by (simp add: fetchUserData_def alone_def)
  next
    case (Inr response)
    show ?thesis
    proof (cases "success response")
      case False
      with Pair Inr show ?thesis by (simp add: fetchUserData_def alone_def)
    next
      case True
      show ?thesis
      proof (cases "data response")
        case (UserData u)
        obtain st2 w2 where fp:
          "fetchPermissions fetch (u_role_id u) (st\<lparr>user := Some u\<rparr>, w1) = (st2, w2)"
          by (cases "fetchPermissions fetch (u_role_id u) (st\<lparr>user := Some u\<rparr>, w1)")
        from fetchPermissions_then_finally_as_events
               [of fetch "u_role_id u" "st\<lparr>user := Some u\<rparr>" w1] fp
        have "st2\<lparr>loading := False\<rparr>
                = store (resume (AwaitPermissions (u_role_id u) True)
                    (fst (api_get fetch (RolePermissionsRole_EP (u_role_id u))
                            (observe (st\<lparr>user := Some u\<rparr>) w1)))
                    \<lparr>store = st\<lparr>user := Some u\<rparr>, pending = []\<rparr>)"
          by (simp add: alone_def)
        with Pair Inr True UserData fp show ?thesis
          by (simp add: fetchUserData_def alone_def)
      qed (use Pair Inr True in \<open>simp_all add: fetchUserData_def alone_def\<close>)
    qed
  qed
qed

lemma login_as_events:
  "fst (snd (login fetch email password (st, w)))
     = (let a = api_post fetch Login_EP (LoginBody email password) (observe st w);
            c = step (Deliver 0 (fst a)) (start (Login email password) (alone st))
        in if pending c = pending (start Hydrate (alone st))
           then fst (fetchUserData fetch (st, snd a)) else st)"
  by (cases "api_post fetch Login_EP (LoginBody email password) (observe st w)")
     (auto simp: login_def alone_def split: sum.splits)

section \<open>Session store: operations that overlap\<close>

lemma without_simps: "store (without i c) = store c"
  "set (pending (without i c)) \<subseteq> set (pending c)"
  by (auto simp: without_def dest: in_set_takeD in_set_dropD)

lemma list_ex_without: "list_ex P (pending (without i c)) \<Longrightarrow> list_ex P (pending c)"
  using without_simps(2) [of i c] by (auto simp: list_ex_iff)

lemma identity_inv_without: "identity_inv c \<Longrightarrow> identity_inv (without i c)"
  using list_ex_without [of is_AwaitPermissions i c]
  by (auto simp: identity_inv_def without_simps(1))

lemma start_identity_inv: "identity_inv c \<Longrightarrow> identity_inv (start x c)"
  by (cases x) (simp_all add: identity_inv_def split: option.splits)

lemma resume_identity_inv0:
  assumes "identity_inv c0"
    and "is_AwaitPermissions t \<longrightarrow> user (store c0) \<noteq> None"
    and "t = AwaitLogout \<and> \<not> isl answer \<longrightarrow> \<not> list_ex is_AwaitPermissions (pending c0)"
  shows "identity_inv (resume t answer c0)"
  using assms
  by (cases t; cases answer)
     (auto simp: identity_inv_def Let_def split: payload.splits)


lemma step_identity_inv:
  assumes "identity_inv c"
    and "\<not> (i < length (pending c) \<and> pending c ! i = AwaitLogout \<and> \<not> isl answer
          \<and> list_ex is_AwaitPermissions (pending c))"
  shows "identity_inv (step (Deliver i answer) c)"
proof (cases "i < length (pending c)")
  case False
  with assms(1) show ?thesis by simp
next
  case True
  let ?t = "pending c ! i"
  have mem: "?t \<in> set (pending c)" using True by simp
  have a: "identity_inv (without i c)" by (rule identity_inv_without [OF assms(1)])
  have b: "is_AwaitPermissions ?t \<longrightarrow> user (store (without i c)) \<noteq> None"
    using assms(1) mem by (auto simp: identity_inv_def without_simps(1) list_ex_iff)
  have c: "?t = AwaitLogout \<and> \<not> isl answer
             \<longrightarrow> \<not> list_ex is_AwaitPermissions (pending (without i c))"
    using assms(2) True list_ex_without [of is_AwaitPermissions i c] by blast
  from resume_identity_inv0 [OF a b c] True show ?thesis
    by (simp add: without_def)
qed

lemma trace_identity_inv:
  "identity_inv c \<Longrightarrow> logouts_land_clear es c \<Longrightarrow> list_all identity_inv (trace es c)"
proof (induction es arbitrary: c)
  case Nil
  then show ?case by simp
next
  case (Cons e es)
  show ?case
  proof (cases e)
    case (Start x)
    with Cons.prems Cons.IH [of "start x c"] show ?thesis
      by (simp add: start_identity_inv)
  next
    case (Deliver i answer)
    with Cons.prems have "identity_inv (step (Deliver i answer) c)"
      by (intro step_identity_inv) simp_all
    with Cons.prems Deliver Cons.IH [of "step (Deliver i answer) c"] show ?thesis
      by simp
  qed
qed


lemma hydrating_inv_without: "hydrating_inv c \<Longrightarrow> hydrating_inv (without i c)"
  using list_ex_without [of is_refresh i c]
  by (auto simp: hydrating_inv_def without_simps(1))

lemma start_hydrating_inv:
  assumes "hydrating_inv c"
    and "\<not> (x = RefreshPermissions \<and> loading (store c) \<and> user (store c) \<noteq> None)"
  shows "hydrating_inv (start x c)"
  using assms by (cases x) (auto simp: hydrating_inv_def split: option.splits)

lemma resume_hydrating_inv0:
  assumes "hydrating_inv c0" and "is_refresh t \<longrightarrow> \<not> loading (store c0)"
  shows "hydrating_inv (resume t answer c0)"
  using assms
  by (cases t; cases answer)
     (auto simp: hydrating_inv_def Let_def split: payload.splits)

lemma step_hydrating_inv:
  assumes "hydrating_inv c"
  shows "hydrating_inv (step (Deliver i answer) c)"
proof (cases "i < length (pending c)")
  case False
  with assms show ?thesis by simp
next
  case True
  let ?t = "pending c ! i"
  have mem: "?t \<in> set (pending c)" using True by simp
  have a: "hydrating_inv (without i c)" by (rule hydrating_inv_without [OF assms])
  have b: "is_refresh ?t \<longrightarrow> \<not> loading (store (without i c))"
    using assms mem by (auto simp: hydrating_inv_def without_simps(1) list_ex_iff)
  from resume_hydrating_inv0 [OF a b] True show ?thesis
    by (simp add: without_def)
qed

lemma trace_hydrating_inv:
  "hydrating_inv c \<Longrightarrow> no_refresh_while_hydrating es c \<Longrightarrow> list_all hydrating_inv (trace es c)"
proof (induction es arbitrary: c)
  case Nil
  then show ?case by simp
next
  case (Cons e es)
  show ?case
  proof (cases e)
    case (Start x)
    with Cons.prems have "hydrating_inv (start x c)"
      by (intro start_hydrating_inv) simp_all
    with Cons.prems Start Cons.IH [of "start x c"] show ?thesis by simp
  next
    case (Deliver i answer)
    from Cons.prems have "hydrating_inv (step (Deliver i answer) c)"
      by (intro step_hydrating_inv) simp_all
    with Cons.prems Deliver Cons.IH [of "step (Deliver i answer) c"] show ?thesis
      by simp
  qed
qed


lemma start_sequential_inv:
  assumes "sequential_inv c" "pending c = []"
  shows "sequential_inv (start x c)"
    and "\<not> (x = RefreshPermissions \<and> loading (store c) \<and> user (store c) \<noteq> None)"
  using assms by (cases x; auto simp: sequential_inv_def split: option.splits)+

lemma resume_sequential_inv0:
  assumes "pending c0 = []"
    and "loading (store c0) \<and> user (store c0) \<noteq> None \<longrightarrow> (\<exists>roleId. t = AwaitPermissions roleId True)"
  shows "sequential_inv (resume t answer c0)"
  using assms
  by (cases t; cases answer)
     (auto simp: sequential_inv_def Let_def split: payload.splits)

lemma step_sequential_inv:
  assumes "sequential_inv c"
  shows "sequential_inv (step (Deliver i answer) c)"
    and "\<not> (i < length (pending c) \<and> pending c ! i = AwaitLogout \<and> \<not> isl answer
            \<and> list_ex is_AwaitPermissions (pending c))"
proof -
  from assms have len: "length (pending c) \<le> 1" by (simp add: sequential_inv_def)
  show "sequential_inv (step (Deliver i answer) c)"
  proof (cases "i < length (pending c)")
    case False
    with assms show ?thesis by simp
  next
    case True
    with len obtain t where p: "pending c = [t]" "i = 0"
      by (cases "pending c") auto
    have a: "pending (without 0 c) = []" using p by (simp add: without_def)
    have b: "loading (store (without 0 c)) \<and> user (store (without 0 c)) \<noteq> None
               \<longrightarrow> (\<exists>roleId. t = AwaitPermissions roleId True)"
      using assms p by (auto simp: sequential_inv_def without_simps(1))
    from resume_sequential_inv0 [OF a b] p show ?thesis
      by (simp add: without_def)
  qed
  show "\<not> (i < length (pending c) \<and> pending c ! i = AwaitLogout \<and> \<not> isl answer
            \<and> list_ex is_AwaitPermissions (pending c))"
  proof
    assume h: "i < length (pending c) \<and> pending c ! i = AwaitLogout \<and> \<not> isl answer
            \<and> list_ex is_AwaitPermissions (pending c)"
    with len obtain t where p: "pending c = [t]" "i = 0"
      by (cases "pending c") auto
    with h show False by auto
  qed
qed

lemma one_at_a_time_well_behaved:
  "sequential_inv c \<Longrightarrow> one_at_a_time es c
   \<Longrightarrow> logouts_land_clear es c \<and> no_refresh_while_hydrating es c"
proof (induction es arbitrary: c)
  case Nil
  then show ?case by simp
next
  case (Cons e es)
  show ?case
  proof (cases e)
    case (Start x)
    with Cons.prems have e: "pending c = []" and r: "one_at_a_time es (start x c)" by simp_all
    from start_sequential_inv [OF Cons.prems(1) e, of x] Cons.IH [OF _ r] Start
    show ?thesis by simp
  next
    case (Deliver i answer)
    with Cons.prems have r: "one_at_a_time es (step (Deliver i answer) c)" by simp
    from step_sequential_inv [OF Cons.prems(1), of i answer] Cons.IH [OF _ r] Deliver
    show ?thesis by simp
  qed
qed

lemma initial_session_invs:
  "identity_inv initial_session" "hydrating_inv initial_session" "sequential_inv initial_session"
  by (simp_all add: identity_inv_def hydrating_inv_def sequential_inv_def initial_session_def
      initial_auth_def)


text \<open>
  C10 (as amended). Start from the initial state of the provider and let operations
  (hydration, login, register, logout, refreshPermissions) start and their answers arrive
  in any order. As long as no logout call returns while a permission fetch is in flight,
  every state the store goes through has an empty permission list whenever its identity is
  null. Operations that run one at a time, each complete before the next starts, never
  let a logout return during a permission fetch.
\<close>

theorem null_identity_has_no_permissions:
  "(one_at_a_time es initial_session \<longrightarrow> logouts_land_clear es initial_session)
   \<and> (logouts_land_clear es initial_session \<longrightarrow>
        (\<forall>c \<in> set (trace es initial_session).
           user (store c) = None \<longrightarrow> permissions (store c) = []))"
proof (intro conjI impI)
  assume "one_at_a_time es initial_session"
  with one_at_a_time_well_behaved [OF initial_session_invs(3)]
  show "logouts_land_clear es initial_session" by blast
next
  assume "logouts_land_clear es initial_session"
  from trace_identity_inv [OF initial_session_invs(1) this]
  show "\<forall>c \<in> set (trace es initial_session).
           user (store c) = None \<longrightarrow> permissions (store c) = []"
    by (simp add: list_all_iff identity_inv_def)
qed

lemmas run_defs = orderly_run_def overtaking_run_def hydrating_run_def refreshing_run_def
  answer_ok_def envelope_def initial_session_def initial_auth_def

text \<open>
  Bob logs out while the permission fetch of the hydration is in flight: the logout
  clears the store, then the answer of the fetch arrives and \<^verbatim>\<open>setPermissions\<close>
  stores \<^verbatim>\<open>user.read\<close> next to a null identity.
\<close>

theorem logout_overtaken_by_permission_fetch:
  "user (store (last (trace overtaking_run initial_session))) = None
   \<and> permissions (store (last (trace overtaking_run initial_session))) = [''user.read'']"
  by (simp add: run_defs bob_def manager_user_read_def user_read_def)

text \<open>
  The orderly run: its fourth state is Bob's session with \<^verbatim>\<open>user.read\<close>; after the
  logout the identity is null and the list is empty.
\<close>

theorem null_identity_has_no_permissions_witness:
  "one_at_a_time orderly_run initial_session
   \<and> logouts_land_clear orderly_run initial_session
   \<and> trace orderly_run initial_session ! 3 \<in> set (trace orderly_run initial_session)
   \<and> store (trace orderly_run initial_session ! 3) = bob_session
   \<and> last (trace orderly_run initial_session) \<in> set (trace orderly_run initial_session)
   \<and> user (store (last (trace orderly_run initial_session))) = None
   \<and> permissions (store (last (trace orderly_run initial_session))) = []"
proof -
  let ?T = "trace orderly_run initial_session"
  have o: "one_at_a_time orderly_run initial_session"
    by (simp add: run_defs)
  have t: "?T ! 3 \<in> set ?T" "last ?T \<in> set ?T"
    by (simp_all add: orderly_run_def)
  have s: "store (?T ! 3) = bob_session"
    by (simp add: run_defs bob_session_def manager_user_read_def user_read_def)
  have u: "user (store (last ?T)) = None"
    by (simp add: run_defs)
  note T = null_identity_has_no_permissions [of orderly_run]
  have l: "logouts_land_clear orderly_run initial_session"
    by (rule T [THEN conjunct1, THEN mp, OF o])
  have "\<forall>c \<in> set ?T. user (store c) = None \<longrightarrow> permissions (store c) = []"
    by (rule T [THEN conjunct2, THEN mp, OF l])
  from bspec [OF this t(2)] u have p: "permissions (store (last ?T)) = []" by (rule mp)
  show ?thesis by (intro conjI o l t s u p)
qed

text \<open>
  C4 (as amended). With a null identity, which is the Anonymous state and the Hydrating
  state until the identity arrives, \<^verbatim>\<open>hasRole(r)\<close> and \<^verbatim>\<open>isAdmin()\<close> are false.
  \<^verbatim>\<open>hasPermission(p)\<close> is false in every state with a null identity that the store goes
  through, as long as no logout call returns while a permission fetch is in flight; and it
  is false in every state that is still loading, as long as \<^verbatim>\<open>refreshPermissions\<close> is
  not started with an identity during hydration. Both conditions hold when operations run
  one at a time. \<^verbatim>\<open>hasRole\<close> and \<^verbatim>\<open>isAdmin\<close> do not read \<^verbatim>\<open>loading\<close>.
\<close>

theorem predicates_false_outside_authenticated:
  "(user st = None \<longrightarrow> \<not> hasRole st r \<and> \<not> isAdmin st)
   \<and> (logouts_land_clear es initial_session \<longrightarrow>
        (\<forall>c \<in> set (trace es initial_session).
           user (store c) = None \<longrightarrow> \<not> hasPermission (store c) p))
   \<and> (no_refresh_while_hydrating es initial_session \<longrightarrow>
        (\<forall>c \<in> set (trace es initial_session).
           loading (store c) \<longrightarrow> \<not> hasPermission (store c) p))
   \<and> (one_at_a_time es initial_session \<longrightarrow>
        logouts_land_clear es initial_session \<and> no_refresh_while_hydrating es initial_session)"
proof (intro conjI impI)
  assume "user st = None"
  then show "\<not> hasRole st r" "\<not> isAdmin st" by (simp_all add: hasRole_def isAdmin_def)
next
  assume "logouts_land_clear es initial_session"
  from trace_identity_inv [OF initial_session_invs(1) this]
  show "\<forall>c \<in> set (trace es initial_session).
           user (store c) = None \<longrightarrow> \<not> hasPermission (store c) p"
    by (simp add: list_all_iff identity_inv_def hasPermission_def)
next
  assume "no_refresh_while_hydrating es initial_session"
  from trace_hydrating_inv [OF initial_session_invs(2) this]
  show "\<forall>c \<in> set (trace es initial_session).
           loading (store c) \<longrightarrow> \<not> hasPermission (store c) p"
    by (simp add: list_all_iff hydrating_inv_def hasPermission_def)
next
  assume "one_at_a_time es initial_session"
  with one_at_a_time_well_behaved [OF initial_session_invs(3)]
  show "logouts_land_clear es initial_session" "no_refresh_while_hydrating es initial_session"
    by blast+
qed

text \<open>
  Three states in which a predicate answers true. Hydrating, once Alice's identity has
  arrived and before her permissions have: \<^verbatim>\<open>isAdmin()\<close> and
  \<^verbatim>\<open>hasRole('Admin')\<close>. Anonymous, after a logout that returned during the permission
  fetch: \<^verbatim>\<open>hasPermission('user.read')\<close>. Hydrating, after a
  \<^verbatim>\<open>refreshPermissions\<close> that was answered before the hydration's own fetch:
  \<^verbatim>\<open>hasPermission('user.read')\<close>.
\<close>

theorem predicates_true_outside_authenticated:
  "loading (store (last (trace hydrating_run initial_session)))
   \<and> isAdmin (store (last (trace hydrating_run initial_session)))
   \<and> hasRole (store (last (trace hydrating_run initial_session))) ''Admin''
   \<and> user (store (last (trace overtaking_run initial_session))) = None
   \<and> \<not> loading (store (last (trace overtaking_run initial_session)))
   \<and> hasPermission (store (last (trace overtaking_run initial_session))) ''user.read''
   \<and> loading (store (last (trace refreshing_run initial_session)))
   \<and> hasPermission (store (last (trace refreshing_run initial_session))) ''user.read''"
  by (simp add: run_defs isAdmin_def hasRole_def hasPermission_def alice_def admin_role_def
      bob_def manager_user_read_def user_read_def)

text \<open>
  The orderly run: loading with Bob's identity and no permission yet, then Bob's session
  with \<^verbatim>\<open>user.read\<close>, then, after the logout, no identity and every predicate false.
\<close>

theorem predicates_false_outside_authenticated_witness:
  "one_at_a_time orderly_run initial_session
   \<and> logouts_land_clear orderly_run initial_session
   \<and> no_refresh_while_hydrating orderly_run initial_session
   \<and> trace orderly_run initial_session ! 2 \<in> set (trace orderly_run initial_session)
   \<and> loading (store (trace orderly_run initial_session ! 2))
   \<and> user (store (trace orderly_run initial_session ! 2)) = Some bob
   \<and> \<not> hasPermission (store (trace orderly_run initial_session ! 2)) ''user.read''
   \<and> hasPermission (store (trace orderly_run initial_session ! 3)) ''user.read''
   \<and> last (trace orderly_run initial_session) \<in> set (trace orderly_run initial_session)
   \<and> user (store (last (trace orderly_run initial_session))) = None
   \<and> \<not> hasPermission (store (last (trace orderly_run initial_session))) ''user.read''
   \<and> \<not> hasRole (store (last (trace orderly_run initial_session))) ''Manager''
   \<and> \<not> isAdmin (store (last (trace orderly_run initial_session)))"
proof -
  let ?T = "trace orderly_run initial_session"
  have o: "one_at_a_time orderly_run initial_session"
    by (simp add: run_defs)
  have t: "?T ! 2 \<in> set ?T" "last ?T \<in> set ?T"
    by (simp_all add: orderly_run_def)
  have s: "loading (store (?T ! 2))" "user (store (?T ! 2)) = Some bob"
    "hasPermission (store (?T ! 3)) ''user.read''" "user (store (last ?T)) = None"
    by (simp_all add: run_defs hasPermission_def manager_user_read_def user_read_def)
  note T = predicates_false_outside_authenticated
             [of "store (last ?T)" "''Manager''" orderly_run "''user.read''"]
  have r: "\<not> hasRole (store (last ?T)) ''Manager'' \<and> \<not> isAdmin (store (last ?T))"
    by (rule T [THEN conjunct1, THEN mp, OF s(4)])
  have w: "logouts_land_clear orderly_run initial_session
           \<and> no_refresh_while_hydrating orderly_run initial_session"
    by (rule T [THEN conjunct2, THEN conjunct2, THEN conjunct2, THEN mp, OF o])
  have "\<forall>c \<in> set ?T. user (store c) = None \<longrightarrow> \<not> hasPermission (store c) ''user.read''"
    by (rule T [THEN conjunct2, THEN conjunct1, THEN mp, OF w [THEN conjunct1]])
  from bspec [OF this t(2)] s(4)
  have a: "\<not> hasPermission (store (last ?T)) ''user.read''" by (rule mp)
  have "\<forall>c \<in> set ?T. loading (store c) \<longrightarrow> \<not> hasPermission (store c) ''user.read''"
    by (rule T [THEN conjunct2, THEN conjunct2, THEN conjunct1, THEN mp, OF w [THEN conjunct2]])
  from bspec [OF this t(1)] s(1)
  have h: "\<not> hasPermission (store (?T ! 2)) ''user.read''" by (rule mp)
  show ?thesis
    by (intro conjI o w [THEN conjunct1] w [THEN conjunct2] t s a h
        r [THEN conjunct1] r [THEN conjunct2])
qed

section \<open>Authorization guard\<close>

text \<open>
  C3. \<^verbatim>\<open>ProtectedRoute\<close> answers with the first of its checks that applies, in this
  order: the spinner while loading; the redirect to the login page, carrying the requested
  location, when there is no user; the administrator denial when \<^verbatim>\<open>requireAdmin\<close> is
  set and \<^verbatim>\<open>isAdmin()\<close> is false; the role denial naming the role when a (non-empty)
  \<^verbatim>\<open>requiredRole\<close> is not the user's; the permission denial naming the permission
  when a (non-empty) \<^verbatim>\<open>requiredPermission\<close> is not held; the children otherwise. In
  particular a signed-in non-admin user on a route with \<^verbatim>\<open>requireAdmin\<close> and any
  \<^verbatim>\<open>requiredPermission\<close> gets the administrator denial, never the permission one.
\<close>

theorem ProtectedRoute_first_match_wins:
  "(loading st \<longrightarrow> ProtectedRoute props location st = LoadingSpinner)
   \<and> (\<not> loading st \<and> user st = None \<longrightarrow> ProtectedRoute props location st = NavigateLogin location)
   \<and> (\<not> loading st \<and> user st \<noteq> None \<and> requireAdmin props \<and> \<not> isAdmin st
        \<longrightarrow> ProtectedRoute props location st = AdminDenied)
   \<and> (\<not> loading st \<and> user st \<noteq> None \<and> \<not> (requireAdmin props \<and> \<not> isAdmin st)
        \<and> requiredRole props = Some role \<and> role \<noteq> [] \<and> \<not> hasRole st role
        \<longrightarrow> ProtectedRoute props location st = RoleDenied role)
   \<and> (\<not> loading st \<and> user st \<noteq> None \<and> \<not> (requireAdmin props \<and> \<not> isAdmin st)
        \<and> \<not> (truthy (requiredRole props) \<and> \<not> hasRole st (the (requiredRole props)))
        \<and> requiredPermission props = Some perm \<and> perm \<noteq> [] \<and> \<not> hasPermission st perm
        \<longrightarrow> ProtectedRoute props location st = PermissionDenied perm)
   \<and> (\<not> loading st \<and> user st \<noteq> None \<and> \<not> (requireAdmin props \<and> \<not> isAdmin st)
        \<and> \<not> (truthy (requiredRole props) \<and> \<not> hasRole st (the (requiredRole props)))
        \<and> \<not> (truthy (requiredPermission props) \<and> \<not> hasPermission st (the (requiredPermission props)))
        \<longrightarrow> ProtectedRoute props location st = Children)
   \<and> (\<not> loading st \<and> user st \<noteq> None \<and> \<not> isAdmin st \<and> requireAdmin props
        \<and> requiredPermission props = Some perm
        \<longrightarrow> ProtectedRoute props location st = AdminDenied
            \<and> ProtectedRoute props location st \<noteq> PermissionDenied perm)"
  by (simp add: ProtectedRoute_def truthy_def)


text \<open>
  Bob, a Manager holding \<^verbatim>\<open>user.read\<close>: with \<^verbatim>\<open>requireAdmin\<close> and
  \<^verbatim>\<open>requiredPermission="x.y"\<close> he gets the administrator denial; with only
  \<^verbatim>\<open>requiredPermission="role.read"\<close> the denial names that permission; signed out, he
  is sent to the login page.
\<close>

theorem ProtectedRoute_first_match_wins_witness:
  "ProtectedRoute \<lparr>requiredPermission = Some ''x.y'', requiredRole = None, requireAdmin = True\<rparr>
       ''/users'' bob_session = AdminDenied
   \<and> ProtectedRoute \<lparr>requiredPermission = Some ''role.read'', requiredRole = None, requireAdmin = False\<rparr>
       ''/roles'' bob_session = PermissionDenied ''role.read''
   \<and> ProtectedRoute \<lparr>requiredPermission = Some ''role.read'', requiredRole = None, requireAdmin = False\<rparr>
       ''/roles'' (bob_session\<lparr>user := None, permissions := []\<rparr>) = NavigateLogin ''/roles''
   \<and> ProtectedRoute \<lparr>requiredPermission = Some ''user.read'', requiredRole = None, requireAdmin = False\<rparr>
       ''/users'' bob_session = Children
   \<and> ProtectedRoute \<lparr>requiredPermission = Some ''user.read'', requiredRole = None, requireAdmin = False\<rparr>
       ''/users'' initial_auth = LoadingSpinner"
proof -
  let ?admin = "\<lparr>requiredPermission = Some ''x.y'', requiredRole = None, requireAdmin = True\<rparr>"
  let ?roles = "\<lparr>requiredPermission = Some ''role.read'', requiredRole = None, requireAdmin = False\<rparr>"
  let ?users = "\<lparr>requiredPermission = Some ''user.read'', requiredRole = None, requireAdmin = False\<rparr>"
  have b: "\<not> loading bob_session" "user bob_session \<noteq> None" "\<not> isAdmin bob_session"
    "\<not> hasPermission bob_session ''role.read''" "hasPermission bob_session ''user.read''"
    by (simp_all add: bob_session_def isAdmin_def hasRole_def hasPermission_def bob_def
        manager_role_def)
  have a: "\<not> loading (bob_session\<lparr>user := None, permissions := []\<rparr>)"
    "user (bob_session\<lparr>user := None, permissions := []\<rparr>) = None"
    by (simp_all add: bob_session_def)
  have i: "loading initial_auth" by (simp add: initial_auth_def)
  have "ProtectedRoute ?admin ''/users'' bob_session = AdminDenied"
    using ProtectedRoute_first_match_wins [of bob_session ?admin "''/users''" "[]" "''x.y''"] b
    by simp
  moreover have "ProtectedRoute ?roles ''/roles'' bob_session = PermissionDenied ''role.read''"
    using ProtectedRoute_first_match_wins [of bob_session ?roles "''/roles''" "[]" "''role.read''"] b
    by (simp add: truthy_def)
  moreover have "ProtectedRoute ?roles ''/roles'' (bob_session\<lparr>user := None, permissions := []\<rparr>)
      = NavigateLogin ''/roles''"
    using ProtectedRoute_first_match_wins
      [of "bob_session\<lparr>user := None, permissions := []\<rparr>" ?roles "''/roles''" "[]" "''role.read''"] a
    by simp
  moreover have "ProtectedRoute ?users ''/users'' bob_session = Children"
    using ProtectedRoute_first_match_wins [of bob_session ?users "''/users''" "[]" "''user.read''"] b
    by (simp add: truthy_def)
  moreover have "ProtectedRoute ?users ''/users'' initial_auth = LoadingSpinner"
    using ProtectedRoute_first_match_wins [of initial_auth ?users "''/users''" "[]" "''user.read''"] i
    by simp
  ultimately show ?thesis by simp
qed

section \<open>API client\<close>

lemma http_error_message_nonempty: "http_error_message r \<noteq> []"
  by (simp add: http_error_message_def Let_def)

lemma rate_limit_recognised: "str_includes rate_limit_message ''Rate limit''"
  by (simp add: rate_limit_message_def)

text \<open>
  C9 (as amended). Whatever \<^verbatim>\<open>fetch\<close> answers to the request: on a 2xx status whose
  body parses, \<^verbatim>\<open>request\<close> returns the parsed envelope as it is, \<^verbatim>\<open>success\<close> and
  \<^verbatim>\<open>data\<close> unread; on a 2xx status with an unreadable body it throws the parser's
  error; on any other status but 429 it throws an error whose message is the body's
  message or \<^verbatim>\<open>HTTP <status>: <statusText>\<close>, never empty; on 429 it throws the fixed
  message \<^verbatim>\<open>Rate limit exceeded. Please try again later.\<close>, which
  \<^verbatim>\<open>handleRateLimit\<close> turns into the "Rate Limit Exceeded" notification; a rejected
  \<^verbatim>\<open>fetch\<close> is rethrown, or replaced by "Network error occurred" when it is not an
  \<^verbatim>\<open>Error\<close>. Errors carry no type or status: \<^verbatim>\<open>handleRateLimit\<close> gives the rate-limit
  notification to exactly the errors whose message contains \<^verbatim>\<open>Rate limit\<close>.
\<close>

theorem request_outcomes:
  assumes "fetch \<lparr>req_method = m, req_endpoint = ep, req_body = b\<rparr> (net w) = (res, n')"
  shows "(\<forall>r d. res = Resolved r \<and> ok r \<and> json r = Parsed d
            \<longrightarrow> fst (request fetch m ep b w) = Inr d)
   \<and> (\<forall>r msg. res = Resolved r \<and> ok r \<and> json r = Malformed msg
            \<longrightarrow> fst (request fetch m ep b w) = Inl (Error msg))
   \<and> (\<forall>r. res = Resolved r \<and> \<not> ok r \<and> status r \<noteq> 429
            \<longrightarrow> fst (request fetch m ep b w) = Inl (Error (http_error_message r))
                \<and> http_error_message r \<noteq> [])
   \<and> (\<forall>r. res = Resolved r \<and> status r = 429
            \<longrightarrow> fst (request fetch m ep b w) = Inl (Error rate_limit_message)
                \<and> title (handleRateLimit (Error rate_limit_message)) = ''Rate Limit Exceeded'')
   \<and> (\<forall>msg. res = Rejected (ErrorObject msg)
            \<longrightarrow> fst (request fetch m ep b w) = Inl (Error msg))
   \<and> (res = Rejected NonError
            \<longrightarrow> fst (request fetch m ep b w) = Inl (Error ''Network error occurred''))
   \<and> (\<forall>e. (title (handleRateLimit e) = ''Rate Limit Exceeded'')
            = str_includes (error_message e) ''Rate limit'')"
  using assms http_error_message_nonempty rate_limit_recognised
  by (auto simp: request_def Let_def handleRateLimit_def ok_def)

text \<open>
  A 500 answer whose body carries the rate-limit sentence as its message throws the very
  error a 429 answer throws, and \<^verbatim>\<open>handleRateLimit\<close> classifies it as a rate limit.
\<close>

theorem other_failure_classified_as_rate_limit:
  "fst (request (fetch_always (respond 500 ''Internal Server Error''
          (envelope False ''Rate limit exceeded. Please try again later.'' OtherData)))
        GET Userdata_EP None (new_world () :: (unit, unit) world))
   = fst (request (fetch_always (respond 429 ''Too Many Requests''
          (envelope False ''slow down'' OtherData)))
        GET Userdata_EP None (new_world () :: (unit, unit) world))
   \<and> title (handleRateLimit (Error ''Rate limit exceeded. Please try again later.''))
      = ''Rate Limit Exceeded''"
  by (simp add: request_def fetch_always_def respond_def envelope_def ok_def
      http_error_message_def rate_limit_message_def handleRateLimit_def)

text \<open>The theorem at a 200, a 429, a 503 with an unreadable body, and no network.\<close>

theorem request_outcomes_witness:
  "fst (request (fetch_always (respond 200 ''OK'' (envelope False ''no'' OtherData)))
        GET Userdata_EP None (new_world () :: (unit, unit) world))
     = Inr (envelope False ''no'' OtherData)
   \<and> fst (request (fetch_always (respond 429 ''Too Many Requests'' (envelope False ''slow down'' OtherData)))
        GET Userdata_EP None (new_world () :: (unit, unit) world))
     = Inl (Error ''Rate limit exceeded. Please try again later.'')
   \<and> fst (request (fetch_always (Resolved \<lparr>status = 503, statusText = ''Service Unavailable'',
                                            json = Malformed ''Unexpected token''\<rparr>))
        GET Userdata_EP None (new_world () :: (unit, unit) world))
     = Inl (Error ''HTTP 503: Service Unavailable'')
   \<and> fst (request fetch_offline GET Userdata_EP None (new_world () :: (unit, unit) world))
     = Inl (Error ''Failed to fetch'')
   \<and> title (handleRateLimit (Error ''HTTP 503: Service Unavailable'')) = ''Error''"
proof -
  let ?w = "new_world () :: (unit, unit) world"
  let ?rq = "\<lparr>req_method = GET, req_endpoint = Userdata_EP, req_body = None\<rparr>"
  let ?r503 = "\<lparr>status = 503, statusText = ''Service Unavailable'', json = Malformed ''Unexpected token''\<rparr>"
  have f1: "fetch_always (respond 200 ''OK'' (envelope False ''no'' OtherData)) ?rq (net ?w)
            = (respond 200 ''OK'' (envelope False ''no'' OtherData), ())"
    and f2: "fetch_always (respond 429 ''Too Many Requests'' (envelope False ''slow down'' OtherData)) ?rq (net ?w)
            = (respond 429 ''Too Many Requests'' (envelope False ''slow down'' OtherData), ())"
    and f3: "fetch_always (Resolved ?r503) ?rq (net ?w) = (Resolved ?r503, ())"
    and f4: "fetch_offline ?rq (net ?w) = (Rejected (ErrorObject ''Failed to fetch''), ())"
    by (simp_all add: fetch_always_def fetch_offline_def)
  have m: "http_error_message ?r503 = ''HTTP 503: Service Unavailable''"
    by (simp add: http_error_message_def)
  have k: "ok \<lparr>status = 200, statusText = ''OK'', json = Parsed (envelope False ''no'' OtherData)\<rparr>"
    "\<not> ok ?r503" "\<not> str_includes ''HTTP 503: Service Unavailable'' ''Rate limit''"
    by (simp_all add: ok_def)
  from request_outcomes [of "fetch_always (respond 200 ''OK'' (envelope False ''no'' OtherData))" GET Userdata_EP None ?w, OF f1] k
  have c1: "fst (request (fetch_always (respond 200 ''OK'' (envelope False ''no'' OtherData))) GET Userdata_EP None ?w)
            = Inr (envelope False ''no'' OtherData)"
    by (simp add: respond_def)
  from request_outcomes [of "fetch_always (respond 429 ''Too Many Requests'' (envelope False ''slow down'' OtherData))" GET Userdata_EP None ?w, OF f2]
  have c2: "fst (request (fetch_always (respond 429 ''Too Many Requests'' (envelope False ''slow down'' OtherData))) GET Userdata_EP None ?w)
            = Inl (Error ''Rate limit exceeded. Please try again later.'')"
    by (simp add: respond_def rate_limit_message_def)
  from request_outcomes [of "fetch_always (Resolved ?r503)" GET Userdata_EP None ?w, OF f3] k m
  have c3: "fst (request (fetch_always (Resolved ?r503)) GET Userdata_EP None ?w)
            = Inl (Error ''HTTP 503: Service Unavailable'')"
    by simp
  from request_outcomes [of fetch_offline GET Userdata_EP None ?w, OF f4]
  have c4: "fst (request fetch_offline GET Userdata_EP None ?w) = Inl (Error ''Failed to fetch'')"
    by simp
  from request_outcomes [of fetch_offline GET Userdata_EP None ?w, OF f4] k
  have c5: "title (handleRateLimit (Error ''HTTP 503: Service Unavailable'')) \<noteq> ''Rate Limit Exceeded''"
    by simp
  then have "title (handleRateLimit (Error ''HTTP 503: Service Unavailable'')) = ''Error''"
    by (simp add: handleRateLimit_def split: if_splits)
  with c1 c2 c3 c4 show ?thesis by simp
qed

section \<open>Role-permission assignment screen\<close>

lemma request_fst_snd:
  "request fetch m ep b w = (r, w') \<Longrightarrow>
     seen w' = seen w \<and> calls w' = calls w @ [\<lparr>req_method = m, req_endpoint = ep, req_body = b\<rparr>]"
  using request_seen [of fetch m ep b w] request_calls [of fetch m ep b w] by simp

lemma fetchRolePermissions_result:
  assumes "request fetch GET (RolePermissionsRole_EP role) None (observe scr w) = (r2, w2)"
  shows "fetchRolePermissions fetch role (scr, w)
     = (scr\<lparr>rolePermissions :=
          (case r2 of
             Inr response \<Rightarrow>
               (if success response then
                  (case data response of Rows rows \<Rightarrow> rows | _ \<Rightarrow> rolePermissions scr)
                else rolePermissions scr)
           | Inl e \<Rightarrow> rolePermissions scr)\<rparr>, w2)"
  using assms
  by (auto simp: fetchRolePermissions_def api_get_def split: sum.splits payload.splits)

text \<open>
  C5 (as amended). Without a selected role, or without the \<^verbatim>\<open>permission.assign\<close>
  permission, \<^verbatim>\<open>togglePermission\<close> sends nothing and changes nothing. Otherwise it
  sends exactly one grant or revoke: a \<^verbatim>\<open>DELETE /rolepermissions\<close> if the permission is
  in the local assignment list at that moment, a \<^verbatim>\<open>POST /rolepermissions\<close> if not,
  with the local list still as it was while the request is in flight. If that call throws,
  the toggle ends there: no refetch, state unchanged. If it returns (whatever its
  \<^verbatim>\<open>success\<close> flag), the toggle sends one \<^verbatim>\<open>GET /rolepermissions/role/:id\<close>, again
  with the local list untouched meanwhile, and then replaces the list by the rows of a
  successful answer, or keeps it when the refetch fails; the permission id joins
  \<^verbatim>\<open>changes\<close>.
\<close>

theorem togglePermission_protocol:
  "(selectedRole scr = None \<or> \<not> hasPermission auth ''permission.assign''
      \<longrightarrow> togglePermission fetch auth pid (scr, w) = (scr, w))
   \<and> (selectedRole scr = Some role \<and> hasPermission auth ''permission.assign''
       \<and> request fetch (if hasRolePermission scr pid then DELETE else POST) RolePermissions_EP
            (Some (RolePermissionBody role pid)) (observe scr w) = (r1, w1)
       \<and> request fetch GET (RolePermissionsRole_EP role) None (observe scr w1) = (r2, w2)
       \<and> togglePermission fetch auth pid (scr, w) = (scr', w')
      \<longrightarrow> calls w1 = calls w @ [toggle_request scr role pid]
          \<and> seen w1 = seen w @ [scr]
          \<and> (\<forall>e. r1 = Inl e \<longrightarrow> scr' = scr \<and> w' = w1)
          \<and> (\<forall>response. r1 = Inr response \<longrightarrow>
                w' = w2
                \<and> calls w2 = calls w @ [toggle_request scr role pid, refetch_request role]
                \<and> seen w2 = seen w @ [scr, scr]
                \<and> rolePermissions scr' =
                    (case r2 of
                       Inr refetched \<Rightarrow>
                         (if success refetched then
                            (case data refetched of Rows rows \<Rightarrow> rows | _ \<Rightarrow> rolePermissions scr)
                          else rolePermissions scr)
                     | Inl e \<Rightarrow> rolePermissions scr)
                \<and> scr' = scr\<lparr>rolePermissions := rolePermissions scr',
                               changes := insert pid (changes scr)\<rparr>))"
proof (intro conjI impI)
  assume "selectedRole scr = None \<or> \<not> hasPermission auth ''permission.assign''"
  then show "togglePermission fetch auth pid (scr, w) = (scr, w)"
    by (auto simp: togglePermission_def split: option.splits)
next
  assume a: "selectedRole scr = Some role \<and> hasPermission auth ''permission.assign''
       \<and> request fetch (if hasRolePermission scr pid then DELETE else POST) RolePermissions_EP
            (Some (RolePermissionBody role pid)) (observe scr w) = (r1, w1)
       \<and> request fetch GET (RolePermissionsRole_EP role) None (observe scr w1) = (r2, w2)
       \<and> togglePermission fetch auth pid (scr, w) = (scr', w')"
  then have sel: "selectedRole scr = Some role" and perm: "hasPermission auth ''permission.assign''"
    and q1: "request fetch (if hasRolePermission scr pid then DELETE else POST) RolePermissions_EP
            (Some (RolePermissionBody role pid)) (observe scr w) = (r1, w1)"
    and q2: "request fetch GET (RolePermissionsRole_EP role) None (observe scr w1) = (r2, w2)"
    and t: "togglePermission fetch auth pid (scr, w) = (scr', w')"
    by simp_all
  from request_fst_snd [OF q1]
  have l1: "calls w1 = calls w @ [toggle_request scr role pid]" "seen w1 = seen w @ [scr]"
    by (simp_all add: toggle_request_def observe_def)
  from request_fst_snd [OF q2] l1
  have l2: "calls w2 = calls w @ [toggle_request scr role pid, refetch_request role]"
    "seen w2 = seen w @ [scr, scr]"
    by (simp_all add: refetch_request_def observe_def)
  have m: "(if hasRolePermission scr pid
            then api_delete fetch RolePermissions_EP (RolePermissionBody role pid) (observe scr w)
            else api_post fetch RolePermissions_EP (RolePermissionBody role pid) (observe scr w))
           = (r1, w1)"
    using q1 by (simp add: api_delete_def api_post_def split: if_splits)
  have thrown: "scr' = scr \<and> w' = w1" if "r1 = Inl e" for e
    using t sel perm m that by (simp add: togglePermission_def Let_def)
  have returned: "w' = w2
      \<and> rolePermissions scr' =
          (case r2 of
             Inr refetched \<Rightarrow>
               (if success refetched then
                  (case data refetched of Rows rows \<Rightarrow> rows | _ \<Rightarrow> rolePermissions scr)
                else rolePermissions scr)
           | Inl e \<Rightarrow> rolePermissions scr)
      \<and> scr' = scr\<lparr>rolePermissions := rolePermissions scr', changes := insert pid (changes scr)\<rparr>"
    if "r1 = Inr response" for response
    using t sel perm m that fetchRolePermissions_result [OF q2]
    by (auto simp: togglePermission_def Let_def)
  show "calls w1 = calls w @ [toggle_request scr role pid]" by (rule l1)
  show "seen w1 = seen w @ [scr]" by (rule l1)
  show "\<forall>e. r1 = Inl e \<longrightarrow> scr' = scr \<and> w' = w1" using thrown by blast
  show "\<forall>response. r1 = Inr response \<longrightarrow>
                w' = w2
                \<and> calls w2 = calls w @ [toggle_request scr role pid, refetch_request role]
                \<and> seen w2 = seen w @ [scr, scr]
                \<and> rolePermissions scr' =
                    (case r2 of
                       Inr refetched \<Rightarrow>
                         (if success refetched then
                            (case data refetched of Rows rows \<Rightarrow> rows | _ \<Rightarrow> rolePermissions scr)
                          else rolePermissions scr)
                     | Inl e \<Rightarrow> rolePermissions scr)
                \<and> scr' = scr\<lparr>rolePermissions := rolePermissions scr',
                               changes := insert pid (changes scr)\<rparr>"
    using returned l2 by blast
qed


text \<open>
  With the network unreachable, a toggle by a user who may assign sends the grant and
  nothing else: the assignment list is not fetched again.
\<close>

theorem toggle_skips_refetch_when_call_fails:
  "calls (snd (togglePermission fetch_offline assigner_session 7 (manager_screen, new_world ())))
     = [\<lparr>req_method = POST, req_endpoint = RolePermissions_EP,
         req_body = Some (RolePermissionBody 2 7)\<rparr>]
   \<and> refetch_request 2
       \<notin> set (calls (snd (togglePermission fetch_offline assigner_session 7
                              (manager_screen, new_world ()))))"
  by (simp add: togglePermission_def api_post_def request_def fetch_offline_def fetch_always_def
      assigner_session_def manager_screen_def hasPermission_def hasRolePermission_def
      observe_def new_world_def refetch_request_def)

text \<open>
  The grant of permission 7 to role 2 followed by the refetch of the role's list, which
  then contains permission 7; and the same toggle by Bob, who may not assign.
\<close>

theorem togglePermission_protocol_witness:
  "calls (snd (togglePermission (api_server example_row) assigner_session 7
                 (manager_screen, new_world [])))
     = [\<lparr>req_method = POST, req_endpoint = RolePermissions_EP,
          req_body = Some (RolePermissionBody 2 7)\<rparr>,
        \<lparr>req_method = GET, req_endpoint = RolePermissionsRole_EP 2, req_body = None\<rparr>]
   \<and> seen (snd (togglePermission (api_server example_row) assigner_session 7
                 (manager_screen, new_world [])))
     = [manager_screen, manager_screen]
   \<and> map rp_permission_id
        (rolePermissions (fst (togglePermission (api_server example_row) assigner_session 7
                                 (manager_screen, new_world [])))) = [7]
   \<and> togglePermission (api_server example_row) bob_session 7 (manager_screen, new_world [])
     = (manager_screen, new_world [])"
proof -
  let ?f = "api_server example_row"
  let ?w = "new_world [] :: RolePermission list screen_world"
  obtain r1 w1 where q1: "request ?f (if hasRolePermission manager_screen 7 then DELETE else POST)
      RolePermissions_EP (Some (RolePermissionBody 2 7)) (observe manager_screen ?w) = (r1, w1)"
    by (metis surj_pair)
  obtain r2 w2 where q2:
    "request ?f GET (RolePermissionsRole_EP 2) None (observe manager_screen w1) = (r2, w2)"
    by (metis surj_pair)
  obtain scr' w' where t:
    "togglePermission ?f assigner_session 7 (manager_screen, ?w) = (scr', w')"
    by (metis surj_pair)
  have g: "selectedRole manager_screen = Some 2" "hasPermission assigner_session ''permission.assign''"
    "\<not> hasPermission bob_session ''permission.assign''" "\<not> hasRolePermission manager_screen 7"
    "calls ?w = []" "seen ?w = []"
    by (simp_all add: manager_screen_def assigner_session_def bob_session_def hasPermission_def
        hasRolePermission_def new_world_def)
  have v1: "r1 = Inr (envelope True ''Permission granted'' OtherData)"
    "net w1 = [manager_user_read]"
    using q1 g(4)
    by (auto simp: request_def api_server_def respond_def ok_def observe_def new_world_def
        assigned_def example_row_def manager_user_read_def)
  have v2: "r2 = Inr (envelope True ''Role permissions'' (Rows [manager_user_read]))"
    using q2 v1(2)
    by (auto simp: request_def api_server_def respond_def ok_def observe_def
        manager_user_read_def)
  have e: "success (envelope True ''Role permissions'' (Rows [manager_user_read]))"
    "data (envelope True ''Role permissions'' (Rows [manager_user_read])) = Rows [manager_user_read]"
    by (simp_all add: envelope_def)
  from togglePermission_protocol
         [of manager_screen assigner_session ?f 7 ?w 2 r1 w1 r2 w2 scr' w'] g q1 q2 t v1 v2 e
  have a: "calls w' = [toggle_request manager_screen 2 7, refetch_request 2]
     \<and> seen w' = [manager_screen, manager_screen]
     \<and> rolePermissions scr' = [manager_user_read]"
    by simp
  from togglePermission_protocol
         [of manager_screen bob_session ?f 7 ?w 2 r1 w1 r2 w2 scr' w'] g
  have b: "togglePermission ?f bob_session 7 (manager_screen, ?w) = (manager_screen, ?w)"
    by simp
  from a b t g(4) show ?thesis
    by (simp add: toggle_request_def refetch_request_def manager_user_read_def)
qed

text \<open>
  One toggle against the modelled server, when both of its requests are served, flips the
  membership of the pair, on the screen and in the server's table, and touches no other
  pair.
\<close>

lemma hasRolePermission_filter:
  "list_ex (\<lambda>rp. rp_permission_id rp = p) (filter (\<lambda>row. rp_role_id row = r) table)
     = assigned r p table"
  by (auto simp: assigned_def list_ex_iff)

lemma toggle_guard_fails:
  "selectedRole scr = None \<or> \<not> hasPermission auth ''permission.assign''
   \<Longrightarrow> togglePermission fetch auth pid (scr, w) = (scr, w)"
  by (auto simp: togglePermission_def split: option.splits)

lemma flaky_server_serves:
  "list_all (\<lambda>f. f = Serve) (take 1 plan) \<Longrightarrow>
   flaky_server mk rq (plan, table)
     = (fst (api_server mk rq table), (tl plan, snd (api_server mk rq table)))"
  by (cases plan) (auto simp: flaky_server_def split: prod.splits fault.splits)

lemma toggle_on_flaky_server:
  assumes "selectedRole scr = Some role" "hasPermission auth ''permission.assign''"
    and "net w = (plan, table)" "list_all (\<lambda>f. f = Serve) (take 2 plan)"
  shows "net (snd (togglePermission (flaky_server mk) auth pid (scr, w)))
           = (drop 2 plan,
              if hasRolePermission scr pid
              then filter (\<lambda>row. \<not> (rp_role_id row = role \<and> rp_permission_id row = pid)) table
              else if assigned role pid table then table
              else table @ [(mk role pid)\<lparr>rp_role_id := role, rp_permission_id := pid\<rparr>])"
    and "rolePermissions (fst (togglePermission (flaky_server mk) auth pid (scr, w)))
           = filter (\<lambda>row. rp_role_id row = role)
               (snd (net (snd (togglePermission (flaky_server mk) auth pid (scr, w)))))"
    and "selectedRole (fst (togglePermission (flaky_server mk) auth pid (scr, w))) = Some role"
proof -
  have s1: "list_all (\<lambda>f. f = Serve) (take 1 plan)"
    and s2: "list_all (\<lambda>f. f = Serve) (take 1 (tl plan))"
    and d: "tl (tl plan) = drop 2 plan"
    using assms(4) by (cases plan; cases "tl plan"; simp)+
  note fs = flaky_server_serves [OF s1] flaky_server_serves [OF s2]
  show "net (snd (togglePermission (flaky_server mk) auth pid (scr, w)))
           = (drop 2 plan,
              if hasRolePermission scr pid
              then filter (\<lambda>row. \<not> (rp_role_id row = role \<and> rp_permission_id row = pid)) table
              else if assigned role pid table then table
              else table @ [(mk role pid)\<lparr>rp_role_id := role, rp_permission_id := pid\<rparr>])"
    using assms(1-3) d
    by (simp add: togglePermission_def fetchRolePermissions_def api_get_def api_post_def
      api_delete_def request_def fs api_server_def respond_def envelope_def ok_def observe_def
      Let_def)
  show "rolePermissions (fst (togglePermission (flaky_server mk) auth pid (scr, w)))
           = filter (\<lambda>row. rp_role_id row = role)
               (snd (net (snd (togglePermission (flaky_server mk) auth pid (scr, w)))))"
    using assms(1-3) d
    by (simp add: togglePermission_def fetchRolePermissions_def api_get_def api_post_def
      api_delete_def request_def fs api_server_def respond_def envelope_def ok_def observe_def
      Let_def)
  show "selectedRole (fst (togglePermission (flaky_server mk) auth pid (scr, w))) = Some role"
    using assms(1-3) d
    by (simp add: togglePermission_def fetchRolePermissions_def api_get_def api_post_def
      api_delete_def request_def fs api_server_def respond_def envelope_def ok_def observe_def
      Let_def)
qed


lemma toggle_on_flaky_server_flips:
  assumes "selectedRole scr = Some role" "hasPermission auth ''permission.assign''"
    and "net w = (plan, table)" "list_all (\<lambda>f. f = Serve) (take 2 plan)"
  shows "hasRolePermission (fst (togglePermission (flaky_server mk) auth pid (scr, w))) pid
           = (\<not> hasRolePermission scr pid)"
    and "assigned role pid (snd (net (snd (togglePermission (flaky_server mk) auth pid (scr, w)))))
           = (\<not> hasRolePermission scr pid)"
    and "(r', p') \<noteq> (role, pid) \<Longrightarrow>
         assigned r' p' (snd (net (snd (togglePermission (flaky_server mk) auth pid (scr, w)))))
           = assigned r' p' table"
    and "fst (net (snd (togglePermission (flaky_server mk) auth pid (scr, w)))) = drop 2 plan"
proof -
  let ?t = "togglePermission (flaky_server mk) auth pid (scr, w)"
  note n = toggle_on_flaky_server(1) [OF assms, of mk pid]
  show a: "assigned role pid (snd (net (snd ?t))) = (\<not> hasRolePermission scr pid)"
    using n by (auto simp: assigned_def list_ex_iff)
  show "hasRolePermission (fst ?t) pid = (\<not> hasRolePermission scr pid)"
    using toggle_on_flaky_server(2) [OF assms, of mk pid] a
    by (simp add: hasRolePermission_def hasRolePermission_filter)
  show "assigned r' p' (snd (net (snd ?t))) = assigned r' p' table" if "(r', p') \<noteq> (role, pid)"
    using n that by (auto simp: assigned_def list_ex_iff)
  show "fst (net (snd ?t)) = drop 2 plan" using n by simp
qed

text \<open>
  C6 (as amended). Against the remote API as section 6 of the spec describes it, when the
  server serves the four requests of two toggles of the same permission in a row (each
  toggle's refetch completing before the next toggle), the screen's membership of that
  permission is afterwards what it was before the first toggle. If, in addition, the
  screen's membership agreed with the server's table before the first toggle, the table
  assigns exactly the same (role, permission) pairs afterwards as before. A screen that was
  out of date does not have that: see below.
\<close>

theorem toggle_twice_restores_assignment:
  "net w = (plan, table) \<and> list_all (\<lambda>f. f = Serve) (take 4 plan) \<longrightarrow>
     hasRolePermission
       (fst (togglePermission (flaky_server mk) auth pid
               (togglePermission (flaky_server mk) auth pid (scr, w)))) pid
       = hasRolePermission scr pid
     \<and> (selectedRole scr = Some role \<and> hasRolePermission scr pid = assigned role pid table
          \<longrightarrow> (\<forall>r' p'. assigned r' p'
                  (snd (net (snd (togglePermission (flaky_server mk) auth pid
                               (togglePermission (flaky_server mk) auth pid (scr, w))))))
                = assigned r' p' table))"
proof (intro impI)
  assume a: "net w = (plan, table) \<and> list_all (\<lambda>f. f = Serve) (take 4 plan)"
  then have nw: "net w = (plan, table)" and served: "list_all (\<lambda>f. f = Serve) (take 4 plan)"
    by simp_all
  let ?t1 = "togglePermission (flaky_server mk) auth pid (scr, w)"
  let ?t2 = "togglePermission (flaky_server mk) auth pid ?t1"
  let ?goal = "hasRolePermission (fst ?t2) pid = hasRolePermission scr pid
     \<and> (selectedRole scr = Some role \<and> hasRolePermission scr pid = assigned role pid table
          \<longrightarrow> (\<forall>r' p'. assigned r' p' (snd (net (snd ?t2))) = assigned r' p' table))"
  show ?goal
  proof (cases "selectedRole scr = None \<or> \<not> hasPermission auth ''permission.assign''")
    case True
    have "?t1 = (scr, w)" by (rule toggle_guard_fails [OF True])
    with nw show ?thesis by simp
  next
    case False
    then obtain r where sel: "selectedRole scr = Some r"
      and perm: "hasPermission auth ''permission.assign''" by auto
    have "set (take 2 plan) \<subseteq> set (take 4 plan)"
      by (rule set_take_subset_set_take) simp
    with served have s1: "list_all (\<lambda>f. f = Serve) (take 2 plan)"
      by (auto simp: list_all_iff)
    have "take 2 (drop 2 plan) = drop 2 (take 4 plan)" by (simp add: drop_take)
    then have "set (take 2 (drop 2 plan)) \<subseteq> set (take 4 plan)"
      by (simp add: set_drop_subset)
    with served have s2: "list_all (\<lambda>f. f = Serve) (take 2 (drop 2 plan))"
      by (auto simp: list_all_iff)
    note f1 = toggle_on_flaky_server_flips [OF sel perm nw s1, where mk = mk and pid = pid]
    obtain table1 where n1: "net (snd ?t1) = (drop 2 plan, table1)"
      using f1(4) by (cases "net (snd ?t1)") simp
    have sel1: "selectedRole (fst ?t1) = Some r"
      by (rule toggle_on_flaky_server(3) [OF sel perm nw s1])
    have t2: "?t2 = togglePermission (flaky_server mk) auth pid (fst ?t1, snd ?t1)" by simp
    note f2 = toggle_on_flaky_server_flips [OF sel1 perm n1 s2, where mk = mk and pid = pid, folded t2]
    have local: "hasRolePermission (fst ?t2) pid = hasRolePermission scr pid"
      using f1(1) f2(1) by simp
    have remote: "assigned r' p' (snd (net (snd ?t2))) = assigned r' p' table"
      if sync: "hasRolePermission scr pid = assigned r pid table" for r' p'
    proof (cases "(r', p') = (r, pid)")
      case True
      with f2(2) f1(1) sync show ?thesis by simp
    next
      case False
      from f2(3) [OF False] f1(3) [OF False] n1 show ?thesis by simp
    qed
    show ?thesis using local remote sel by auto
  qed
qed

text \<open>
  Two runs in which every refetch completes and the assignment is not what it was. In the
  first the server has assigned permission 7 to role 2 but the screen's list is empty, as
  after a failed fetch of the role's list or a grant made elsewhere: the first toggle
  sends a grant, which changes nothing, the refetch shows the assignment, and the second
  toggle revokes it. In the second the screen is up to date and the server refuses the
  first grant with a \<^verbatim>\<open>success: false\<close> answer, which \<^verbatim>\<open>togglePermission\<close> does not
  read: the second toggle grants again and this time the permission is assigned.
\<close>

lemma stale_toggle_twice_revokes:
  "\<not> hasRolePermission manager_screen 7
   \<and> assigned 2 7 [manager_user_read]
   \<and> calls (snd (togglePermission (api_server example_row) assigner_session 7
                 (togglePermission (api_server example_row) assigner_session 7
                    (manager_screen, new_world [manager_user_read]))))
       = [\<lparr>req_method = POST, req_endpoint = RolePermissions_EP,
            req_body = Some (RolePermissionBody 2 7)\<rparr>,
          \<lparr>req_method = GET, req_endpoint = RolePermissionsRole_EP 2, req_body = None\<rparr>,
          \<lparr>req_method = DELETE, req_endpoint = RolePermissions_EP,
            req_body = Some (RolePermissionBody 2 7)\<rparr>,
          \<lparr>req_method = GET, req_endpoint = RolePermissionsRole_EP 2, req_body = None\<rparr>]
   \<and> \<not> assigned 2 7
        (net (snd (togglePermission (api_server example_row) assigner_session 7
               (togglePermission (api_server example_row) assigner_session 7
                  (manager_screen, new_world [manager_user_read])))))"
  by (simp add: togglePermission_def fetchRolePermissions_def api_get_def api_post_def
        api_delete_def request_def api_server_def respond_def envelope_def ok_def observe_def
        new_world_def manager_screen_def assigner_session_def hasPermission_def
        hasRolePermission_def assigned_def manager_user_read_def)

lemma refused_toggle_twice_grants:
  "\<not> hasRolePermission manager_screen 7
   \<and> \<not> assigned 2 7 (snd (net (new_world ([Refuse], []) :: (fault list \<times> RolePermission list) screen_world)))
   \<and> calls (snd (togglePermission (flaky_server example_row) assigner_session 7
                 (togglePermission (flaky_server example_row) assigner_session 7
                    (manager_screen, new_world ([Refuse], [])))))
       = [\<lparr>req_method = POST, req_endpoint = RolePermissions_EP,
            req_body = Some (RolePermissionBody 2 7)\<rparr>,
          \<lparr>req_method = GET, req_endpoint = RolePermissionsRole_EP 2, req_body = None\<rparr>,
          \<lparr>req_method = POST, req_endpoint = RolePermissions_EP,
            req_body = Some (RolePermissionBody 2 7)\<rparr>,
          \<lparr>req_method = GET, req_endpoint = RolePermissionsRole_EP 2, req_body = None\<rparr>]
   \<and> assigned 2 7
        (snd (net (snd (togglePermission (flaky_server example_row) assigner_session 7
               (togglePermission (flaky_server example_row) assigner_session 7
                  (manager_screen, new_world ([Refuse], [])))))))"
  by (simp add: togglePermission_def fetchRolePermissions_def api_get_def api_post_def
        api_delete_def request_def flaky_server_def api_server_def respond_def envelope_def
        ok_def observe_def new_world_def manager_screen_def assigner_session_def
        hasPermission_def hasRolePermission_def assigned_def example_row_def
        manager_user_read_def Let_def)

theorem toggle_twice_changes_assignment:
  "(\<not> hasRolePermission manager_screen 7
   \<and> assigned 2 7 [manager_user_read]
   \<and> calls (snd (togglePermission (api_server example_row) assigner_session 7
                 (togglePermission (api_server example_row) assigner_session 7
                    (manager_screen, new_world [manager_user_read]))))
       = [\<lparr>req_method = POST, req_endpoint = RolePermissions_EP,
            req_body = Some (RolePermissionBody 2 7)\<rparr>,
          \<lparr>req_method = GET, req_endpoint = RolePermissionsRole_EP 2, req_body = None\<rparr>,
          \<lparr>req_method = DELETE, req_endpoint = RolePermissions_EP,
            req_body = Some (RolePermissionBody 2 7)\<rparr>,
          \<lparr>req_method = GET, req_endpoint = RolePermissionsRole_EP 2, req_body = None\<rparr>]
   \<and> \<not> assigned 2 7
        (net (snd (togglePermission (api_server example_row) assigner_session 7
               (togglePermission (api_server example_row) assigner_session 7
                  (manager_screen, new_world [manager_user_read]))))))
   \<and> (\<not> hasRolePermission manager_screen 7
   \<and> \<not> assigned 2 7 (snd (net (new_world ([Refuse], []) :: (fault list \<times> RolePermission list) screen_world)))
   \<and> calls (snd (togglePermission (flaky_server example_row) assigner_session 7
                 (togglePermission (flaky_server example_row) assigner_session 7
                    (manager_screen, new_world ([Refuse], [])))))
       = [\<lparr>req_method = POST, req_endpoint = RolePermissions_EP,
            req_body = Some (RolePermissionBody 2 7)\<rparr>,
          \<lparr>req_method = GET, req_endpoint = RolePermissionsRole_EP 2, req_body = None\<rparr>,
          \<lparr>req_method = POST, req_endpoint = RolePermissions_EP,
            req_body = Some (RolePermissionBody 2 7)\<rparr>,
          \<lparr>req_method = GET, req_endpoint = RolePermissionsRole_EP 2, req_body = None\<rparr>]
   \<and> assigned 2 7
        (snd (net (snd (togglePermission (flaky_server example_row) assigner_session 7
               (togglePermission (flaky_server example_row) assigner_session 7
                  (manager_screen, new_world ([Refuse], []))))))))"
  by (rule conjI [OF stale_toggle_twice_revokes refused_toggle_twice_grants])

text \<open>
  Manager selected and in step with a server that holds one assignment of the Admin role
  and will serve four requests before it drops one: permission 7 is assigned after the
  first toggle, unassigned again after the second, and the Admin role's assignment is
  still there.
\<close>

theorem toggle_twice_restores_assignment_witness:
  "net (new_world ([Serve, Serve, Serve, Serve, Drop], [admin_user_read])
          :: (fault list \<times> RolePermission list) screen_world)
     = ([Serve, Serve, Serve, Serve, Drop], [admin_user_read])
   \<and> list_all (\<lambda>f. f = Serve) (take 4 [Serve, Serve, Serve, Serve, Drop])
   \<and> selectedRole manager_screen = Some 2
   \<and> hasRolePermission manager_screen 7 = assigned 2 7 [admin_user_read]
   \<and> hasRolePermission
        (fst (togglePermission (flaky_server example_row) assigner_session 7
               (manager_screen, new_world ([Serve, Serve, Serve, Serve, Drop], [admin_user_read])))) 7
   \<and> \<not> hasRolePermission
        (fst (togglePermission (flaky_server example_row) assigner_session 7
               (togglePermission (flaky_server example_row) assigner_session 7
                  (manager_screen, new_world ([Serve, Serve, Serve, Serve, Drop], [admin_user_read]))))) 7
   \<and> \<not> assigned 2 7
        (snd (net (snd (togglePermission (flaky_server example_row) assigner_session 7
               (togglePermission (flaky_server example_row) assigner_session 7
                  (manager_screen, new_world ([Serve, Serve, Serve, Serve, Drop], [admin_user_read])))))))
   \<and> assigned 1 7
        (snd (net (snd (togglePermission (flaky_server example_row) assigner_session 7
               (togglePermission (flaky_server example_row) assigner_session 7
                  (manager_screen, new_world ([Serve, Serve, Serve, Serve, Drop], [admin_user_read])))))))"
proof -
  let ?plan = "[Serve, Serve, Serve, Serve, Drop]"
  let ?w = "new_world (?plan, [admin_user_read]) :: (fault list \<times> RolePermission list) screen_world"
  let ?t2 = "togglePermission (flaky_server example_row) assigner_session 7
               (togglePermission (flaky_server example_row) assigner_session 7 (manager_screen, ?w))"
  have n: "net ?w = (?plan, [admin_user_read])" by (simp add: new_world_def)
  have s: "list_all (\<lambda>f. f = Serve) (take 4 ?plan)" by simp
  have h: "selectedRole manager_screen = Some 2"
    "hasRolePermission manager_screen 7 = assigned 2 7 [admin_user_read]"
    "\<not> hasRolePermission manager_screen 7" "\<not> assigned 2 7 [admin_user_read]"
    "assigned 1 7 [admin_user_read]"
    by (simp_all add: manager_screen_def hasRolePermission_def assigned_def admin_user_read_def)
  have once: "hasRolePermission
        (fst (togglePermission (flaky_server example_row) assigner_session 7 (manager_screen, ?w))) 7"
    by (simp add: togglePermission_def fetchRolePermissions_def api_get_def api_post_def
        request_def flaky_server_def api_server_def respond_def envelope_def ok_def observe_def
        new_world_def manager_screen_def assigner_session_def hasPermission_def
        hasRolePermission_def assigned_def example_row_def manager_user_read_def
        admin_user_read_def)
  note T = toggle_twice_restores_assignment
         [of ?w ?plan "[admin_user_read]" example_row assigner_session 7 manager_screen 2,
          THEN mp, OF conjI [OF n s]]
  have l: "hasRolePermission (fst ?t2) 7 = hasRolePermission manager_screen 7"
    by (rule T [THEN conjunct1])
  have r: "\<forall>r' p'. assigned r' p' (snd (net (snd ?t2))) = assigned r' p' [admin_user_read]"
    by (rule T [THEN conjunct2, THEN mp, OF conjI [OF h(1) h(2)]])
  from l h(3) have a: "\<not> hasRolePermission (fst ?t2) 7" by simp
  from r h(4) have b: "\<not> assigned 2 7 (snd (net (snd ?t2)))" by simp
  from r h(5) have c: "assigned 1 7 (snd (net (snd ?t2)))" by simp
  show ?thesis by (intro conjI n s h(1) h(2) once a b c)
qed

section \<open>Permission-gated views\<close>

text \<open>
  The order of \<^verbatim>\<open>Object.entries\<close> at an example: array indices first, by value; a
  key with a leading zero is not one.
\<close>

lemma Object_entries_order:
  "map fst (Object_entries [(''user'', []), (''7'', []), (''10'', []), (''2'', []), (''07'', [])])
     = [''2'', ''7'', ''10'', ''user'', ''07'']"
  by (simp add: Object_entries_def is_array_index_def array_index_def is_digit_def
      digit_value_def)

lemma set_Object_entries: "set (Object_entries groups) = set groups"
  by (auto simp: Object_entries_def)

lemma members_after_push:
  "category \<in> fst ` set groups \<Longrightarrow>
   set (concat (map snd
          (map (\<lambda>(k, v). if k = category then (k, v @ [permission]) else (k, v)) groups)))
     = insert permission (set (concat (map snd groups)))"
proof (induction groups)
  case Nil
  then show ?case by simp
next
  case (Cons g groups)
  obtain k v where g: "g = (k, v)" by (cases g)
  show ?case
  proof (cases "category \<in> fst ` set groups")
    case True
    with Cons.IH g show ?thesis by auto
  next
    case False
    with Cons.prems g have k: "k = category" by auto
    have "map (\<lambda>(k, v). if k = category then (k, v @ [permission]) else (k, v)) groups = groups"
      using False by (induction groups) auto
    with g k show ?thesis by auto
  qed
qed

lemma reduce_groups_members:
  "\<not> list_ex (\<lambda>p. category_of p \<in> set Object_prototype_keys) perms \<Longrightarrow>
   \<exists>groups'. reduce_groups perms groups = Inr groups'
     \<and> set (concat (map snd groups')) = set (concat (map snd groups)) \<union> set perms"
proof (induction perms arbitrary: groups)
  case Nil
  then show ?case by simp
next
  case (Cons p perms)
  let ?next = "(case map_of groups (category_of p) of
                  None \<Rightarrow> groups @ [(category_of p, [p])]
                | Some members \<Rightarrow>
                    map (\<lambda>(k, v). if k = category_of p then (k, v @ [p]) else (k, v)) groups)"
  from Cons.prems have ok: "category_of p \<notin> set Object_prototype_keys"
    and rest: "\<not> list_ex (\<lambda>p. category_of p \<in> set Object_prototype_keys) perms"
    by simp_all
  have step: "set (concat (map snd ?next)) = insert p (set (concat (map snd groups)))"
  proof (cases "map_of groups (category_of p)")
    case None
    then show ?thesis by simp
  next
    case (Some members)
    then have "category_of p \<in> fst ` set groups"
      by (metis domI dom_map_of_conv_image_fst)
    from members_after_push [OF this, of p] Some show ?thesis by simp
  qed
  from Cons.IH [OF rest, of ?next] obtain groups' where
    "reduce_groups perms ?next = Inr groups'"
    "set (concat (map snd groups')) = set (concat (map snd ?next)) \<union> set perms"
    by blast
  with ok step show ?case by (auto simp: Let_def)
qed

lemma reduce_groups_throws:
  "list_ex (\<lambda>p. category_of p \<in> set Object_prototype_keys) perms
   \<Longrightarrow> isl (reduce_groups perms groups)"
  by (induction perms arbitrary: groups) (auto simp: Let_def)

lemma Users_render_elements:
  "e \<in> set (Users_render auth l s users) \<Longrightarrow>
     e = Button ''Open menu'' False \<or> e = MenuItem ''View details''
     \<or> (hasPermission auth ''user.create'' \<and> e = Button ''Add User'' False)
     \<or> (hasPermission auth ''user.update''
          \<and> (e = MenuItem ''Edit user'' \<or> e = MenuItem ''Deactivate'' \<or> e = MenuItem ''Activate''))
     \<or> (hasPermission auth ''user.delete'' \<and> e = MenuItem ''Delete user'')"
  unfolding Users_render_def
  by (auto split: if_splits)


lemma Roles_render_elements:
  "e \<in> set (Roles_render auth l s roles) \<Longrightarrow>
     e = Button ''Open menu'' False \<or> e = MenuItem ''View permissions''
     \<or> (hasPermission auth ''role.create'' \<and> e = Button ''Add Role'' False)
     \<or> (hasPermission auth ''role.update''
          \<and> (e = MenuItem ''Edit role'' \<or> e = MenuItem ''Deactivate'' \<or> e = MenuItem ''Activate''))
     \<or> (hasPermission auth ''role.delete'' \<and> e = MenuItem ''Delete role'')"
  unfolding Roles_render_def
  by (auto split: if_splits)

lemma Permissions_render_elements:
  "Permissions_render auth l s perms = Inr els \<Longrightarrow> e \<in> set els \<Longrightarrow>
     e = Button ''Open menu'' False \<or> e = MenuItem ''View usage''
     \<or> e = MenuItem ''Copy permission name''
     \<or> (hasPermission auth ''permission.create'' \<and> e = Button ''Add Permission'' False)
     \<or> (hasPermission auth ''permission.delete'' \<and> e = MenuItem ''Delete permission'')"
  unfolding Permissions_render_def
  by (auto split: if_splits sum.splits)

lemma Users_gate_held:
  assumes "e \<in> set (Users_render auth l s users)" "Users_gate e = Some p"
  shows "hasPermission auth p"
  using Users_render_elements [OF assms(1)] assms(2)
  by (elim disjE conjE) simp_all

lemma Roles_gate_held:
  assumes "e \<in> set (Roles_render auth l s roles)" "Roles_gate e = Some p"
  shows "hasPermission auth p"
  using Roles_render_elements [OF assms(1)] assms(2)
  by (elim disjE conjE) simp_all

lemma Permissions_gate_held:
  assumes "Permissions_render auth l s perms = Inr els" "e \<in> set els"
    "Permissions_gate e = Some p"
  shows "hasPermission auth p"
  using Permissions_render_elements [OF assms(1,2)] assms(3)
  by (elim disjE conjE) simp_all

lemma set_concat_grouped:
  "set (concat (map (\<lambda>(category, categoryPermissions). map f categoryPermissions) gs))
     = f ` set (concat (map snd gs))"
  by (induction gs) auto

lemma grouped_permissions_complete:
  assumes "\<not> list_ex (\<lambda>p. category_of p \<in> set Object_prototype_keys) perms"
  obtains groups where "groupPermissionsByCategory perms = Inr groups"
    and "set (concat (map snd (Object_entries groups))) = set perms"
proof -
  from reduce_groups_members [OF assms, of "[]"] obtain groups where
    g: "reduce_groups perms [] = Inr groups" "set (concat (map snd groups)) = set perms"
    by auto
  have "set (concat (map snd (Object_entries groups))) = set (concat (map snd groups))"
    by (simp add: set_Object_entries)
  with g that show thesis by (simp add: groupPermissionsByCategory_def)
qed

lemma RolePermissions_render_selected:
  assumes "\<not> sc_loading scr" "selectedRole scr = Some role"
    and "\<not> list_ex (\<lambda>p. category_of p \<in> set Object_prototype_keys) (sc_permissions scr)"
  shows "\<exists>els. RolePermissions_render auth scr = Inr els
     \<and> set els = insert (Button ''Refresh'' False)
         ((\<lambda>permission. Checkbox (p_id permission) (hasRolePermission scr (p_id permission))
                            (\<not> hasPermission auth ''permission.assign''))
            ` set (sc_permissions scr))"
proof -
  let ?f = "\<lambda>permission. Checkbox (p_id permission) (hasRolePermission scr (p_id permission))
                            (\<not> hasPermission auth ''permission.assign'')"
  from grouped_permissions_complete [OF assms(3)] obtain groups where
    g: "groupPermissionsByCategory (sc_permissions scr) = Inr groups"
    and m: "set (concat (map snd (Object_entries groups))) = set (sc_permissions scr)"
    by blast
  let ?els = "Button ''Refresh'' False
        # concat (map (\<lambda>(category, categoryPermissions). map ?f categoryPermissions)
                    (Object_entries groups))"
  have r: "RolePermissions_render auth scr = Inr ?els"
    using assms(1,2) g by (simp add: RolePermissions_render_def)
  have "set ?els = insert (Button ''Refresh'' False)
          (set (concat (map (\<lambda>(category, categoryPermissions). map ?f categoryPermissions)
                    (Object_entries groups))))"
    by (simp only: list.set)
  then have "set ?els = insert (Button ''Refresh'' False) (?f ` set (sc_permissions scr))"
    by (simp only: set_concat_grouped m)
  with r show ?thesis by blast
qed

lemma render_throws:
  "list_ex (\<lambda>p. category_of p \<in> set Object_prototype_keys) (sc_permissions scr)
     \<Longrightarrow> isl (RolePermissions_render auth scr)"
  "list_ex (\<lambda>p. category_of p \<in> set Object_prototype_keys) (filter s perms)
     \<Longrightarrow> isl (Permissions_render auth l s perms)"
  using reduce_groups_throws [of "sc_permissions scr" "[]"]
    reduce_groups_throws [of "filter s perms" "[]"]
  by (auto simp: RolePermissions_render_def Permissions_render_def
      groupPermissionsByCategory_def split: sum.splits)

text \<open>
  C7 (as amended). A permission name that is not in the resolved permission list makes
  \<^verbatim>\<open>hasPermission\<close> false, and then no control that the Users, Roles or Permissions
  screen wraps in a check of that permission is in the screen's render output: it is
  omitted, not disabled. The assignment screen is different: once a role is selected it
  renders one checkbox per permission whatever the user holds, and only sets the
  checkbox's \<^verbatim>\<open>disabled\<close> flag when \<^verbatim>\<open>permission.assign\<close> is missing. This is so
  whenever the screen renders: a permission whose category is the name of a member of
  \<^verbatim>\<open>Object.prototype\<close> makes the assignment screen, and the Permissions screen when the
  search shows it, throw while rendering.
\<close>

theorem gated_controls_omitted_or_disabled:
  "(p \<notin> set (permissions auth) \<longrightarrow> \<not> hasPermission auth p)
   \<and> (\<not> hasPermission auth p \<longrightarrow>
        (\<forall>e \<in> set (Users_render auth l1 s1 users). Users_gate e \<noteq> Some p)
        \<and> (\<forall>e \<in> set (Roles_render auth l2 s2 roles). Roles_gate e \<noteq> Some p)
        \<and> (\<forall>els. Permissions_render auth l3 s3 perms = Inr els
              \<longrightarrow> (\<forall>e \<in> set els. Permissions_gate e \<noteq> Some p)))
   \<and> (\<not> sc_loading scr \<and> selectedRole scr \<noteq> None
       \<and> \<not> list_ex (\<lambda>p. category_of p \<in> set Object_prototype_keys) (sc_permissions scr)
      \<longrightarrow> (\<exists>els. RolePermissions_render auth scr = Inr els
            \<and> set els = insert (Button ''Refresh'' False)
                ((\<lambda>permission. Checkbox (p_id permission)
                                   (hasRolePermission scr (p_id permission))
                                   (\<not> hasPermission auth ''permission.assign''))
                   ` set (sc_permissions scr))))
   \<and> (list_ex (\<lambda>p. category_of p \<in> set Object_prototype_keys) (sc_permissions scr)
        \<longrightarrow> isl (RolePermissions_render auth scr))
   \<and> (list_ex (\<lambda>p. category_of p \<in> set Object_prototype_keys) (filter s3 perms)
        \<longrightarrow> isl (Permissions_render auth l3 s3 perms))"
proof (intro conjI impI ballI allI)
  assume "p \<notin> set (permissions auth)"
  then show "\<not> hasPermission auth p" by (simp add: hasPermission_def)
next
  fix e assume "\<not> hasPermission auth p" "e \<in> set (Users_render auth l1 s1 users)"
  then show "Users_gate e \<noteq> Some p" using Users_gate_held by blast
next
  fix e assume "\<not> hasPermission auth p" "e \<in> set (Roles_render auth l2 s2 roles)"
  then show "Roles_gate e \<noteq> Some p" using Roles_gate_held by blast
next
  fix els e
  assume "\<not> hasPermission auth p" "Permissions_render auth l3 s3 perms = Inr els" "e \<in> set els"
  then show "Permissions_gate e \<noteq> Some p" using Permissions_gate_held by blast
next
  assume a: "\<not> sc_loading scr \<and> selectedRole scr \<noteq> None
       \<and> \<not> list_ex (\<lambda>p. category_of p \<in> set Object_prototype_keys) (sc_permissions scr)"
  then obtain role where "\<not> sc_loading scr" "selectedRole scr = Some role" by auto
  with a show "\<exists>els. RolePermissions_render auth scr = Inr els
            \<and> set els = insert (Button ''Refresh'' False)
                ((\<lambda>permission. Checkbox (p_id permission)
                                   (hasRolePermission scr (p_id permission))
                                   (\<not> hasPermission auth ''permission.assign''))
                   ` set (sc_permissions scr))"
    by (intro RolePermissions_render_selected) simp_all
next
  assume "list_ex (\<lambda>p. category_of p \<in> set Object_prototype_keys) (sc_permissions scr)"
  then show "isl (RolePermissions_render auth scr)" by (rule render_throws(1))
next
  assume "list_ex (\<lambda>p. category_of p \<in> set Object_prototype_keys) (filter s3 perms)"
  then show "isl (Permissions_render auth l3 s3 perms)" by (rule render_throws(2))
qed

text \<open>
  Bob does not hold \<^verbatim>\<open>permission.assign\<close>; the assignment screen still renders the
  checkbox of permission 7 for him, disabled.
\<close>

theorem assign_checkbox_rendered_disabled:
  "\<not> hasPermission bob_session ''permission.assign''
   \<and> RolePermissions_render bob_session manager_screen
       = Inr [Button ''Refresh'' False, Checkbox 7 False True]"
  by (simp add: RolePermissions_render_def groupPermissionsByCategory_def category_of_def
      Object_prototype_keys_def Object_entries_def is_array_index_def is_digit_def
      manager_screen_def bob_session_def hasPermission_def hasRolePermission_def user_read_def)

text \<open>
  For Bob the Users screen has no "Add User" button but keeps the ungated "View details";
  with \<^verbatim>\<open>user.create\<close> the button is there; the assignment screen shows the Refresh
  button and the disabled checkbox; with a permission named \<^verbatim>\<open>constructor.create\<close> in
  the list it throws.
\<close>

theorem gated_controls_omitted_or_disabled_witness:
  "\<not> hasPermission bob_session ''user.create''
   \<and> Button ''Add User'' False \<notin> set (Users_render bob_session False (\<lambda>u. True) [alice, bob])
   \<and> MenuItem ''View details'' \<in> set (Users_render bob_session False (\<lambda>u. True) [alice, bob])
   \<and> Button ''Add User'' False
       \<in> set (Users_render (bob_session\<lparr>permissions := [''user.create'']\<rparr>) False
                (\<lambda>u. True) [alice, bob])
   \<and> set (projr (RolePermissions_render bob_session manager_screen))
       = {Button ''Refresh'' False, Checkbox 7 False True}
   \<and> list_ex (\<lambda>p. category_of p \<in> set Object_prototype_keys)
        (sc_permissions (manager_screen\<lparr>sc_permissions := [user_read, named 9 ''constructor.create'']\<rparr>))
   \<and> isl (RolePermissions_render bob_session
             (manager_screen\<lparr>sc_permissions := [user_read, named 9 ''constructor.create'']\<rparr>))"
proof -
  let ?bad = "manager_screen\<lparr>sc_permissions := [user_read, named 9 ''constructor.create'']\<rparr>"
  have h: "''user.create'' \<notin> set (permissions bob_session)"
    "\<not> sc_loading manager_screen \<and> selectedRole manager_screen \<noteq> None
     \<and> \<not> list_ex (\<lambda>p. category_of p \<in> set Object_prototype_keys) (sc_permissions manager_screen)"
    by (simp_all add: bob_session_def manager_screen_def category_of_def user_read_def
        Object_prototype_keys_def)
  have bad: "list_ex (\<lambda>p. category_of p \<in> set Object_prototype_keys) (sc_permissions ?bad)"
    by (simp add: category_of_def named_def Object_prototype_keys_def)
  have present:
    "MenuItem ''View details'' \<in> set (Users_render bob_session False (\<lambda>u. True) [alice, bob])"
    "Button ''Add User'' False
       \<in> set (Users_render (bob_session\<lparr>permissions := [''user.create'']\<rparr>) False
                (\<lambda>u. True) [alice, bob])"
    by (simp_all add: Users_render_def hasPermission_def bob_session_def)
  have g: "Users_gate (Button ''Add User'' False) = Some ''user.create''" by simp
  have v: "(\<lambda>permission. Checkbox (p_id permission)
               (hasRolePermission manager_screen (p_id permission))
               (\<not> hasPermission bob_session ''permission.assign''))
             ` set (sc_permissions manager_screen) = {Checkbox 7 False True}"
    by (simp add: manager_screen_def hasRolePermission_def user_read_def bob_session_def
        hasPermission_def)
  note T = gated_controls_omitted_or_disabled
         [of "''user.create''" bob_session False "\<lambda>u. True" "[alice, bob]"
             False "\<lambda>r. True" "[]" False "\<lambda>p. True" "[]" manager_screen]
  note B = gated_controls_omitted_or_disabled
         [of "''user.create''" bob_session False "\<lambda>u. True" "[alice, bob]"
             False "\<lambda>r. True" "[]" False "\<lambda>p. True" "[]" ?bad]
  have np: "\<not> hasPermission bob_session ''user.create''"
    by (rule T [THEN conjunct1, THEN mp, OF h(1)])
  have all: "\<forall>e \<in> set (Users_render bob_session False (\<lambda>u. True) [alice, bob]).
           Users_gate e \<noteq> Some ''user.create''"
    by (rule T [THEN conjunct2, THEN conjunct1, THEN mp, OF np, THEN conjunct1])
  have absent:
    "Button ''Add User'' False \<notin> set (Users_render bob_session False (\<lambda>u. True) [alice, bob])"
  proof
    assume "Button ''Add User'' False \<in> set (Users_render bob_session False (\<lambda>u. True) [alice, bob])"
    from bspec [OF all this] g show False by (rule notE)
  qed
  have "\<exists>els. RolePermissions_render bob_session manager_screen = Inr els
          \<and> set els = insert (Button ''Refresh'' False)
              ((\<lambda>permission. Checkbox (p_id permission)
                   (hasRolePermission manager_screen (p_id permission))
                   (\<not> hasPermission bob_session ''permission.assign''))
                 ` set (sc_permissions manager_screen))"
    by (rule T [THEN conjunct2, THEN conjunct2, THEN conjunct1, THEN mp, OF h(2)])
  then obtain els where e: "RolePermissions_render bob_session manager_screen = Inr els"
    "set els = insert (Button ''Refresh'' False)
              ((\<lambda>permission. Checkbox (p_id permission)
                   (hasRolePermission manager_screen (p_id permission))
                   (\<not> hasPermission bob_session ''permission.assign''))
                 ` set (sc_permissions manager_screen))"
    by blast
  from e(2) have "set els = {Button ''Refresh'' False, Checkbox 7 False True}"
    by (simp only: v)
  with e(1) have shown: "set (projr (RolePermissions_render bob_session manager_screen))
       = {Button ''Refresh'' False, Checkbox 7 False True}"
    by (simp only: sum.sel)
  have thrown: "isl (RolePermissions_render bob_session ?bad)"
    by (rule B [THEN conjunct2, THEN conjunct2, THEN conjunct2, THEN conjunct1, THEN mp, OF bad])
  show ?thesis by (intro conjI np absent present shown bad thrown)
qed

end
